theory Spec2Isabelle
  imports Main "HOL-Library.Product_Lexorder" "HOL-Library.Multiset"
begin

section \<open>Task Thrower: the data model\<close>

text \<open>
  The embedding follows the newest variant of the sources: \<^verbatim>\<open>src/lib/dateOnly.ts\<close>,
  the third \<^verbatim>\<open>taskStore.ts\<close> (the one with \<^verbatim>\<open>sortOrder\<close>,
  \<^verbatim>\<open>rescheduleTasksIndividually\<close> and \<^verbatim>\<open>updateOrdering\<close>) and the
  \<^verbatim>\<open>app/page.tsx\<close> that imports exactly these functions.

  JavaScript numbers are modelled as \<^typ>\<open>int\<close>: every number the program stores is a count,
  a band, a multiple of 1000 or a millisecond time stamp. Strings are \<^typ>\<open>string\<close>.
  The field \<^verbatim>\<open>id\<close> of the source is called \<open>id_task\<close> here, since \<open>id\<close> is the
  identity function of HOL.
\<close>

record Task =
  id_task :: string
  uid :: string
  title :: string
  dueDate :: string
  removed :: bool
  doneCount :: int
  lastDoneDate :: string
  throwCount :: int
  sortOrder :: int
  sorter :: int
  createdAtMs :: int
  updatedAtMs :: int

subsection \<open>String comparison and sorting as JavaScript does them\<close>

text \<open>
  \<^verbatim>\<open>a < b\<close> on strings compares code units from the left; a proper prefix is smaller.
  \<^verbatim>\<open>a <= b\<close> is evaluated as \<^verbatim>\<open>!(b < a)\<close> and \<^verbatim>\<open>a > b\<close> as \<^verbatim>\<open>b < a\<close>.
\<close>

fun str_lt :: "string \<Rightarrow> string \<Rightarrow> bool" where
  "str_lt [] [] = False"
| "str_lt [] (y # ys) = True"
| "str_lt (x # xs) [] = False"
| "str_lt (x # xs) (y # ys) =
     (if (of_char x :: nat) < of_char y then True
      else if (of_char y :: nat) < of_char x then False
      else str_lt xs ys)"

definition js_le :: "string \<Rightarrow> string \<Rightarrow> bool" where
  "js_le a b = (\<not> str_lt b a)"

definition js_gt :: "string \<Rightarrow> string \<Rightarrow> bool" where
  "js_gt a b = str_lt b a"

text \<open>
  \<^verbatim>\<open>a.localeCompare(b)\<close>, which the source calls on due dates only: negative, zero or
  positive. The definition is the collation on strings of the form YYYY-MM-DD, where two
  strings differ first in a digit and the collation order is the code unit order; on other text
  the collation of the host may differ, so a statement about the order of Future or Removed
  assumes due dates of that form.
\<close>

definition localeCompare :: "string \<Rightarrow> string \<Rightarrow> int" where
  "localeCompare a b = (if str_lt a b then -1 else if str_lt b a then 1 else 0)"

text \<open>
  \<^verbatim>\<open>Array.prototype.sort(cmp)\<close> is a stable sort: \<open>x\<close> goes before the first \<open>y\<close>
  with \<open>cmp x y \<le> 0\<close>.
\<close>

fun insert_by :: "('a \<Rightarrow> 'a \<Rightarrow> int) \<Rightarrow> 'a \<Rightarrow> 'a list \<Rightarrow> 'a list" where
  "insert_by cmp x [] = [x]"
| "insert_by cmp x (y # ys) =
     (if cmp x y \<le> 0 then x # y # ys else y # insert_by cmp x ys)"

definition sort_by :: "('a \<Rightarrow> 'a \<Rightarrow> int) \<Rightarrow> 'a list \<Rightarrow> 'a list" where
  "sort_by cmp xs = foldr (insert_by cmp) xs []"

subsection \<open>page.tsx: the derived lists\<close>

definition clampSortOrder :: "int \<Rightarrow> int" where
  "clampSortOrder v = (if v < 1 then 1 else if v > 24 then 24 else v)"

definition activeTasks :: "Task list \<Rightarrow> Task list" where
  "activeTasks allTasks = filter (\<lambda>t. \<not> removed t) allTasks"

definition cmpToday :: "Task \<Rightarrow> Task \<Rightarrow> int" where
  "cmpToday a b =
     (let ao = clampSortOrder (sortOrder a); bo = clampSortOrder (sortOrder b)
      in if ao \<noteq> bo then ao - bo
         else if sorter a \<noteq> sorter b then sorter a - sorter b
         else createdAtMs a - createdAtMs b)"

definition todayTasks :: "Task list \<Rightarrow> string \<Rightarrow> Task list" where
  "todayTasks allTasks baseDate =
     sort_by cmpToday (filter (\<lambda>t. js_le (dueDate t) baseDate) (activeTasks allTasks))"

definition cmpFuture :: "Task \<Rightarrow> Task \<Rightarrow> int" where
  "cmpFuture a b =
     (if dueDate a \<noteq> dueDate b then localeCompare (dueDate a) (dueDate b)
      else createdAtMs a - createdAtMs b)"

definition futureTasks :: "Task list \<Rightarrow> string \<Rightarrow> Task list" where
  "futureTasks allTasks baseDate =
     sort_by cmpFuture (filter (\<lambda>t. js_gt (dueDate t) baseDate) (activeTasks allTasks))"

definition cmpRemoved :: "Task \<Rightarrow> Task \<Rightarrow> int" where
  "cmpRemoved a b =
     (if dueDate a \<noteq> dueDate b then localeCompare (dueDate b) (dueDate a)
      else updatedAtMs b - updatedAtMs a)"

definition removedTasks :: "Task list \<Rightarrow> Task list" where
  "removedTasks allTasks = sort_by cmpRemoved (filter (\<lambda>t. removed t) allTasks)"

text \<open>
  \<^verbatim>\<open>a || b\<close> on numbers: \<open>a\<close> unless it is falsy, that is 0 (the model has no NaN).
\<close>

definition js_or :: "int \<Rightarrow> int \<Rightarrow> int" where
  "js_or a b = (if a \<noteq> 0 then a else b)"

section \<open>dateOnly.ts\<close>

subsection \<open>The JavaScript built-ins it calls\<close>

definition is_digit :: "char \<Rightarrow> bool" where
  "is_digit c = (48 \<le> (of_char c :: nat) \<and> (of_char c :: nat) \<le> 57)"

definition digit_val :: "char \<Rightarrow> int" where
  "digit_val c = int (of_char c) - 48"

definition digit_char :: "nat \<Rightarrow> char" where
  "digit_char n = char_of (48 + n)"

text \<open>\<^verbatim>\<open>Number(s)\<close> on a string of decimal digits.\<close>

definition Number_digits :: "string \<Rightarrow> int" where
  "Number_digits s = foldl (\<lambda>acc c. 10 * acc + digit_val c) 0 s"

text \<open>\<^verbatim>\<open>String(n)\<close> on an integer: its decimal digits, after a minus sign when negative.\<close>

fun show_nat :: "nat \<Rightarrow> string" where
  "show_nat n = (if n < 10 then [digit_char n] else show_nat (n div 10) @ [digit_char (n mod 10)])"

declare show_nat.simps [simp del]

definition String_int :: "int \<Rightarrow> string" where
  "String_int i = (if i < 0 then CHR ''-'' # show_nat (nat (- i)) else show_nat (nat i))"

text \<open>
  Time values are whole days since 1970-01-01 (the program never sets a time of day). The
  functions are those of ECMAScript's \<^emph>\<open>Date\<close> chapter: \<open>DayFromYear\<close>, \<open>DaysInYear\<close>,
  \<open>YearFromTime\<close> (the largest year whose first day is not after the day; computed here from
  an estimate that is off by at most one), \<open>MonthFromTime\<close>, \<open>DateFromTime\<close>, \<open>MakeDay\<close> and
  \<open>TimeClip\<close> (a time value beyond 100,000,000 days from the epoch is NaN, here \<open>None\<close>).
\<close>

definition DayFromYear :: "int \<Rightarrow> int" where
  "DayFromYear y = 365 * (y - 1970) + (y - 1969) div 4 - (y - 1901) div 100 + (y - 1601) div 400"

definition DaysInYear :: "int \<Rightarrow> int" where
  "DaysInYear y =
     (if y mod 4 \<noteq> 0 then 365 else if y mod 100 \<noteq> 0 then 366
      else if y mod 400 \<noteq> 0 then 365 else 366)"

definition InLeapYear :: "int \<Rightarrow> int" where
  "InLeapYear y = (if DaysInYear y = 366 then 1 else 0)"

definition YearFromDay :: "int \<Rightarrow> int" where
  "YearFromDay k =
     (let y0 = 1970 + (400 * k) div 146097
      in if DayFromYear (y0 + 1) \<le> k then y0 + 1
         else if DayFromYear y0 \<le> k then y0 else y0 - 1)"

definition DayWithinYear :: "int \<Rightarrow> int" where
  "DayWithinYear k = k - DayFromYear (YearFromDay k)"

text \<open>The day of the year on which month \<open>m\<close> (0 to 11) starts; \<open>l\<close> is 1 in a leap year.\<close>

definition monthStart :: "int \<Rightarrow> int \<Rightarrow> int" where
  "monthStart m l =
     (if m = 0 then 0 else if m = 1 then 31 else if m = 2 then 59 + l
      else if m = 3 then 90 + l else if m = 4 then 120 + l else if m = 5 then 151 + l
      else if m = 6 then 181 + l else if m = 7 then 212 + l else if m = 8 then 243 + l
      else if m = 9 then 273 + l else if m = 10 then 304 + l else 334 + l)"

definition MonthFromDay :: "int \<Rightarrow> int" where
  "MonthFromDay k =
     (let d = DayWithinYear k; l = InLeapYear (YearFromDay k)
      in if d < 31 then 0 else if d < 59 + l then 1 else if d < 90 + l then 2
         else if d < 120 + l then 3 else if d < 151 + l then 4 else if d < 181 + l then 5
         else if d < 212 + l then 6 else if d < 243 + l then 7 else if d < 273 + l then 8
         else if d < 304 + l then 9 else if d < 334 + l then 10 else 11)"

definition DateFromDay :: "int \<Rightarrow> int" where
  "DateFromDay k =
     DayWithinYear k - monthStart (MonthFromDay k) (InLeapYear (YearFromDay k)) + 1"

definition MakeDay :: "int \<Rightarrow> int \<Rightarrow> int \<Rightarrow> int" where
  "MakeDay year month date =
     (let ym = year + month div 12; mn = month mod 12
      in DayFromYear ym + monthStart mn (InLeapYear ym) + date - 1)"

definition TimeClip :: "int \<Rightarrow> int option" where
  "TimeClip k = (if \<bar>k\<bar> > 100000000 then None else Some k)"

text \<open>\<^verbatim>\<open>Date.UTC(y, m, d)\<close>: a year from 0 to 99 means 1900 + y.\<close>

definition Date_UTC :: "int \<Rightarrow> int \<Rightarrow> int \<Rightarrow> int option" where
  "Date_UTC y m d = TimeClip (MakeDay (if 0 \<le> y \<and> y \<le> 99 then 1900 + y else y) m d)"

text \<open>\<^verbatim>\<open>dt.setUTCDate(v)\<close>: an invalid date stays invalid.\<close>

definition setUTCDate :: "int option \<Rightarrow> int \<Rightarrow> int option" where
  "setUTCDate dt v =
     (case dt of None \<Rightarrow> None
      | Some k \<Rightarrow> TimeClip (MakeDay (YearFromDay k) (MonthFromDay k) v))"

subsection \<open>The functions of dateOnly.ts\<close>

datatype error = InvalidISODate | InvalidBaseISO | BatchFailed

definition pad2 :: "int \<Rightarrow> string" where
  "pad2 n = (let s = String_int n in if length s < 2 then CHR ''0'' # s else s)"

fun isISODate :: "string \<Rightarrow> bool" where
  "isISODate [y1, y2, y3, y4, h1, m1, m2, h2, d1, d2] =
     (is_digit y1 \<and> is_digit y2 \<and> is_digit y3 \<and> is_digit y4 \<and> h1 = CHR ''-''
      \<and> is_digit m1 \<and> is_digit m2 \<and> h2 = CHR ''-'' \<and> is_digit d1 \<and> is_digit d2)"
| "isISODate _ = False"

definition parseISO :: "string \<Rightarrow> error + int \<times> int \<times> int" where
  "parseISO s =
     (if \<not> isISODate s then Inl InvalidISODate
      else Inr (Number_digits (take 4 s), Number_digits (take 2 (drop 5 s)),
                Number_digits (take 2 (drop 8 s))))"

definition toISO :: "int \<times> int \<times> int \<Rightarrow> string" where
  "toISO v = (case v of (y, m, d) \<Rightarrow> String_int y @ ''-'' @ pad2 m @ ''-'' @ pad2 d)"

text \<open>
  \<^verbatim>\<open>addDaysISO\<close>. The getters of an invalid date give NaN, which \<^verbatim>\<open>toISO\<close> prints
  as \<^verbatim>\<open>NaN-NaN-NaN\<close>.
\<close>

definition addDaysISO :: "string \<Rightarrow> int \<Rightarrow> error + string" where
  "addDaysISO baseISO days =
     (if \<not> isISODate baseISO then Inl InvalidBaseISO
      else case parseISO baseISO of
        Inl e \<Rightarrow> Inl e
      | Inr (y, m, d) \<Rightarrow>
          (case Date_UTC y (m - 1) d of
             None \<Rightarrow> Inr ''NaN-NaN-NaN''
           | Some k \<Rightarrow>
               (case setUTCDate (Some k) (DateFromDay k + days) of
                  None \<Rightarrow> Inr ''NaN-NaN-NaN''
                | Some k' \<Rightarrow>
                    Inr (toISO (YearFromDay k', MonthFromDay k' + 1, DateFromDay k')))))"

section \<open>taskStore.ts\<close>

text \<open>
  A stored document: its id and the fields it has. A field that is absent is \<open>None\<close>; a field
  that is present holds a value of the type the program writes there.
\<close>

record Doc =
  doc_id :: string
  f_uid :: "string option"
  f_title :: "string option"
  f_dueDate :: "string option"
  f_removed :: "bool option"
  f_doneCount :: "int option"
  f_lastDoneDate :: "string option"
  f_throwCount :: "int option"
  f_sortOrder :: "int option"
  f_sorter :: "int option"
  f_createdAtMs :: "int option"
  f_updatedAtMs :: "int option"

text \<open>\<^verbatim>\<open>String.prototype.trim\<close> on the white space of ASCII.\<close>

definition is_space :: "char \<Rightarrow> bool" where
  "is_space c = (of_char c \<in> {9, 10, 11, 12, 13, 32 :: nat})"

definition trim :: "string \<Rightarrow> string" where
  "trim s = rev (dropWhile is_space (rev (dropWhile is_space s)))"

definition str :: "string option \<Rightarrow> string" where
  "str v = trim (case v of None \<Rightarrow> [] | Some s \<Rightarrow> s)"

definition num :: "int option \<Rightarrow> int" where
  "num v = (case v of None \<Rightarrow> 0 | Some n \<Rightarrow> n)"

definition bool_js :: "bool option \<Rightarrow> bool" where
  "bool_js v = (case v of None \<Rightarrow> False | Some b \<Rightarrow> b)"

text \<open>
  \<^verbatim>\<open>uniq\<close>: the non-empty ids, each once, in the order of their first occurrence (the
  iteration order of a \<^verbatim>\<open>Set\<close>).
\<close>

fun uniq_from :: "string list \<Rightarrow> string list \<Rightarrow> string list" where
  "uniq_from seen [] = []"
| "uniq_from seen (x # xs) =
     (if x = [] \<or> x \<in> set seen then uniq_from seen xs else x # uniq_from (x # seen) xs)"

definition uniq :: "string list \<Rightarrow> string list" where
  "uniq ids = uniq_from [] ids"

text \<open>
  \<^verbatim>\<open>chunk\<close>. The source's loop does not end for size 0; it is only called with 450.
\<close>

function chunk :: "'a list \<Rightarrow> nat \<Rightarrow> 'a list list" where
  "chunk arr sz =
     (if arr = [] \<or> sz = 0 then [] else take sz arr # chunk (drop sz arr) sz)"
  by pat_completeness auto
termination
  by (relation "measure (\<lambda>(arr, sz). length arr)") auto

declare chunk.simps [simp del]

text \<open>
  \<^verbatim>\<open>listTasks\<close>: the documents of the user, each normalised. \<^verbatim>\<open>Math.round(s / 1000)\<close>
  rounds halves up, which on an integer \<open>s\<close> is \<open>(s + 500) div 1000\<close>; \<^verbatim>\<open>Math.trunc\<close> of
  an integer is the integer.
\<close>

definition readDoc :: "Doc \<Rightarrow> Task" where
  "readDoc d =
     (let createdAt = js_or (num (f_createdAtMs d)) 0;
          updatedAt = js_or (num (f_updatedAtMs d)) (js_or createdAt 0);
          due = (if str (f_dueDate d) \<noteq> [] then str (f_dueDate d) else ''9999-12-31'');
          sorter0 = num (f_sorter d);
          sortOrder0 = num (f_sortOrder d);
          sorter1 = (if sorter0 \<le> 0 then js_or createdAt (js_or updatedAt 0) else sorter0);
          sortOrder1 =
            (if sortOrder0 < 1 \<or> sortOrder0 > 24
             then min 24 (max 1 (js_or ((js_or sorter1 0 + 500) div 1000) 24))
             else sortOrder0)
      in \<lparr>id_task = doc_id d, uid = str (f_uid d), title = str (f_title d), dueDate = due,
          removed = bool_js (f_removed d), doneCount = max 0 (num (f_doneCount d)),
          lastDoneDate = str (f_lastDoneDate d), throwCount = max 0 (num (f_throwCount d)),
          sortOrder = sortOrder1, sorter = sorter1, createdAtMs = createdAt,
          updatedAtMs = updatedAt\<rparr>)"

definition listTasks :: "string \<Rightarrow> Doc list \<Rightarrow> Task list" where
  "listTasks u db = map readDoc (filter (\<lambda>d. f_uid d = Some u) db)"

text \<open>
  The \<^verbatim>\<open>data\<close> object of an update: the fields it sets and the counters it increments
  (\<^verbatim>\<open>increment(n)\<close> adds \<open>n\<close> to the stored number, and to 0 when there is none).
\<close>

record Patch =
  set_dueDate :: "string option"
  set_removed :: "bool option"
  inc_doneCount :: "int option"
  set_lastDoneDate :: "string option"
  inc_throwCount :: "int option"
  set_sorter :: "int option"
  set_sortOrder :: "int option"

definition noPatch :: Patch where
  "noPatch = \<lparr>set_dueDate = None, set_removed = None, inc_doneCount = None,
     set_lastDoneDate = None, inc_throwCount = None, set_sorter = None, set_sortOrder = None\<rparr>"

definition update_doc :: "int \<Rightarrow> Patch \<Rightarrow> Doc \<Rightarrow> Doc" where
  "update_doc now p d =
     d\<lparr>f_dueDate := (case set_dueDate p of None \<Rightarrow> f_dueDate d | Some v \<Rightarrow> Some v),
       f_removed := (case set_removed p of None \<Rightarrow> f_removed d | Some v \<Rightarrow> Some v),
       f_doneCount :=
         (case inc_doneCount p of None \<Rightarrow> f_doneCount d | Some n \<Rightarrow> Some (num (f_doneCount d) + n)),
       f_lastDoneDate :=
         (case set_lastDoneDate p of None \<Rightarrow> f_lastDoneDate d | Some v \<Rightarrow> Some v),
       f_throwCount :=
         (case inc_throwCount p of None \<Rightarrow> f_throwCount d
          | Some n \<Rightarrow> Some (num (f_throwCount d) + n)),
       f_sorter := (case set_sorter p of None \<Rightarrow> f_sorter d | Some v \<Rightarrow> Some v),
       f_sortOrder := (case set_sortOrder p of None \<Rightarrow> f_sortOrder d | Some v \<Rightarrow> Some v),
       f_updatedAtMs := Some now\<rparr>"

text \<open>One write batch: its updates in order, each on the document of that id.\<close>

definition commit :: "int \<Rightarrow> (string \<times> Patch) list \<Rightarrow> Doc list \<Rightarrow> Doc list" where
  "commit now part db =
     foldl (\<lambda>docs u. map (\<lambda>d. if doc_id d = fst u then update_doc now (snd u) d else d) docs)
       db part"

text \<open>
  \<^verbatim>\<open>batchUpdate\<close>: the batches are committed one after the other. Whether a commit is
  rejected is the store's affair: \<open>fail = Some k\<close> says that the commit of batch \<open>k\<close> (from 0)
  throws, \<open>None\<close> that none does. The result is the store as the call leaves it and the error
  thrown, if any.
\<close>

fun run_batches ::
  "nat option \<Rightarrow> int \<Rightarrow> (string \<times> Patch) list list \<Rightarrow> Doc list \<Rightarrow> Doc list \<times> error option" where
  "run_batches fail now [] db = (db, None)"
| "run_batches fail now (part # rest) db =
     (if fail = Some 0 then (db, Some BatchFailed)
      else run_batches (map_option (\<lambda>k. k - 1) fail) now rest (commit now part db))"

definition batchUpdate ::
  "nat option \<Rightarrow> (string \<times> Patch) list \<Rightarrow> int \<Rightarrow> Doc list \<Rightarrow> Doc list \<times> error option" where
  "batchUpdate fail updates now db = run_batches fail now (chunk updates 450) db"

text \<open>
  The exported mutations. \<open>throwDelta\<close> and \<open>doneDelta\<close> are the options of the source, with
  their defaults written at the call.
\<close>

definition completeTasks ::
  "nat option \<Rightarrow> int \<Rightarrow> string list \<Rightarrow> string \<Rightarrow> int \<Rightarrow> int \<Rightarrow> Doc list \<Rightarrow> Doc list \<times> error option" where
  "completeTasks fail now taskIds lastDone doneDelta throwDelta db =
     (let ids = uniq taskIds
      in if ids = [] then (db, None)
         else let data = noPatch\<lparr>inc_doneCount := Some doneDelta, set_lastDoneDate := Some lastDone,
                           inc_throwCount := (if throwDelta \<noteq> 0 then Some throwDelta else None)\<rparr>
              in batchUpdate fail (map (\<lambda>i. (i, data)) ids) now db)"

definition rescheduleTasks ::
  "nat option \<Rightarrow> int \<Rightarrow> string list \<Rightarrow> string \<Rightarrow> int \<Rightarrow> Doc list \<Rightarrow> Doc list \<times> error option" where
  "rescheduleTasks fail now taskIds due throwDelta db =
     (let ids = uniq taskIds
      in if ids = [] then (db, None)
         else let data = noPatch\<lparr>set_dueDate := Some due,
                           inc_throwCount := (if throwDelta \<noteq> 0 then Some throwDelta else None)\<rparr>
              in batchUpdate fail (map (\<lambda>i. (i, data)) ids) now db)"

text \<open>\<^verbatim>\<open>map.set(id, dueDate)\<close> on a \<^verbatim>\<open>Map\<close>: a known key keeps its place.\<close>

fun map_set :: "string \<Rightarrow> string \<Rightarrow> (string \<times> string) list \<Rightarrow> (string \<times> string) list" where
  "map_set k v [] = [(k, v)]"
| "map_set k v (p # ps) = (if fst p = k then (k, v) # ps else p # map_set k v ps)"

definition rows_of :: "(string \<times> string) list \<Rightarrow> (string \<times> string) list" where
  "rows_of items =
     foldl (\<lambda>m it. let i = trim (fst it); due = trim (snd it)
                    in if i = [] \<or> due = [] then m else map_set i due m) [] items"

definition rescheduleTasksIndividually ::
  "nat option \<Rightarrow> int \<Rightarrow> (string \<times> string) list \<Rightarrow> int \<Rightarrow> Doc list \<Rightarrow> Doc list \<times> error option" where
  "rescheduleTasksIndividually fail now items throwDelta db =
     (let rows = rows_of items
      in if rows = [] then (db, None)
         else batchUpdate fail
                (map (\<lambda>r. (fst r, noPatch\<lparr>set_dueDate := Some (snd r),
                              inc_throwCount := (if throwDelta \<noteq> 0 then Some throwDelta else None)\<rparr>))
                   rows) now db)"

definition removeTasks ::
  "nat option \<Rightarrow> int \<Rightarrow> string list \<Rightarrow> bool \<Rightarrow> int \<Rightarrow> Doc list \<Rightarrow> Doc list \<times> error option" where
  "removeTasks fail now taskIds rm throwDelta db =
     (let ids = uniq taskIds
      in if ids = [] then (db, None)
         else let data = noPatch\<lparr>set_removed := Some rm,
                           inc_throwCount := (if throwDelta \<noteq> 0 then Some throwDelta else None)\<rparr>
              in batchUpdate fail (map (\<lambda>i. (i, data)) ids) now db)"

text \<open>An entry of \<^verbatim>\<open>updateOrdering\<close>: id, sorter, sortOrder.\<close>

definition updateOrdering ::
  "nat option \<Rightarrow> int \<Rightarrow> (string \<times> int \<times> int) list \<Rightarrow> Doc list \<Rightarrow> Doc list \<times> error option" where
  "updateOrdering fail now items db =
     (let rows = filter (\<lambda>r. fst r \<noteq> [])
                   (map (\<lambda>x. (fst x, fst (snd x), min 24 (max 1 (js_or (snd (snd x)) 24)))) items)
      in if rows = [] then (db, None)
         else batchUpdate fail
                (map (\<lambda>r. (fst r, noPatch\<lparr>set_sorter := Some (fst (snd r)),
                                          set_sortOrder := Some (snd (snd r))\<rparr>)) rows) now db)"

definition updateTask ::
  "nat option \<Rightarrow> int \<Rightarrow> string \<Rightarrow> Patch \<Rightarrow> Doc list \<Rightarrow> Doc list \<times> error option" where
  "updateTask fail now i data db =
     (let taskId = trim i
      in if taskId = [] then (db, None) else batchUpdate fail [(taskId, data)] now db)"

section \<open>page.tsx: the state and its handlers\<close>

datatype ThrowAction = TOMORROW | DAY_AFTER | WEEK | MONTH | MONTH3 | YEAR | SWIPE | DONE | REMOVE

definition actionToDays :: "ThrowAction \<Rightarrow> int option" where
  "actionToDays a =
     (case a of TOMORROW \<Rightarrow> Some 1 | DAY_AFTER \<Rightarrow> Some 2 | WEEK \<Rightarrow> Some 7 | MONTH \<Rightarrow> Some 30
      | MONTH3 \<Rightarrow> Some 90 | YEAR \<Rightarrow> Some 365 | SWIPE \<Rightarrow> None | DONE \<Rightarrow> None | REMOVE \<Rightarrow> None)"

text \<open>The toast: what was done, or the error that was caught.\<close>

datatype Toast = Told string | Caught error

text \<open>
  The state of the component. \<open>selected\<close> is the object of the source, its keys in insertion
  order; \<open>user\<close> is the uid of the signed-in user.
\<close>

record App =
  user :: "string option"
  authOpen :: bool
  baseDate :: string
  allTasks :: "Task list"
  selected :: "(string \<times> bool) list"
  throwAction :: ThrowAction
  busy :: bool
  msg :: "Toast option"

definition is_selected :: "App \<Rightarrow> string \<Rightarrow> bool" where
  "is_selected st i = (map_of (selected st) i = Some True)"

definition selectedIds :: "App \<Rightarrow> string list" where
  "selectedIds st = filter (is_selected st) (map fst (selected st))"

text \<open>The effect that keeps only the selected ids that are in Today.\<close>

definition syncSelected :: "App \<Rightarrow> App" where
  "syncSelected st =
     st\<lparr>selected :=
          filter (\<lambda>kv. snd kv \<and> fst kv \<in> set (map id_task (todayTasks (allTasks st) (baseDate st))))
            (selected st)\<rparr>"

definition refresh :: "string \<Rightarrow> Doc list \<Rightarrow> App \<Rightarrow> App" where
  "refresh u db st = syncSelected (st\<lparr>allTasks := listTasks u db\<rparr>)"

text \<open>
  \<^verbatim>\<open>nextSorterForSortOrder\<close> reads \<^verbatim>\<open>todayTasks\<close> from the component; here the list
  is its first argument. The source adds 1000 on doubles; the sum is the integer sum as long as
  the greatest sorter is an integer of at most \<open>2^53 - 1000\<close>, which the theorem about this
  function assumes.
\<close>

definition nextSorterForSortOrder :: "Task list \<Rightarrow> int \<Rightarrow> int" where
  "nextSorterForSortOrder today so =
     (let target = clampSortOrder so;
          mx = foldl (\<lambda>acc t. max acc (js_or (sorter t) 0)) 0
                 (filter (\<lambda>t. clampSortOrder (sortOrder t) = target) today)
      in js_or mx 0 + 1000)"

definition onRemove :: "nat option \<Rightarrow> int \<Rightarrow> string \<Rightarrow> App \<times> Doc list \<Rightarrow> App \<times> Doc list" where
  "onRemove fail now i w =
     (case w of (st, db) \<Rightarrow>
        (case user st of
           None \<Rightarrow> (st\<lparr>authOpen := True\<rparr>, db)
         | Some u \<Rightarrow>
             (case removeTasks fail now [i] True 0 db of
                (db', None) \<Rightarrow> ((refresh u db' st)\<lparr>msg := Some (Told ''removed''), busy := False\<rparr>, db')
              | (db', Some e) \<Rightarrow> (st\<lparr>msg := Some (Caught e), busy := False\<rparr>, db'))))"

text \<open>The first error of a list of results, or all the values.\<close>

fun collect :: "(error + 'a) list \<Rightarrow> error + 'a list" where
  "collect [] = Inr []"
| "collect (x # xs) =
     (case x of Inl e \<Rightarrow> Inl e
      | Inr v \<Rightarrow> (case collect xs of Inl e \<Rightarrow> Inl e | Inr vs \<Rightarrow> Inr (v # vs)))"

definition swipeItems :: "App \<Rightarrow> error + (string \<times> string) list" where
  "swipeItems st =
     (let checkedInOrder =
            filter (\<lambda>t. is_selected st (id_task t)) (todayTasks (allTasks st) (baseDate st))
      in collect (map (\<lambda>it. case addDaysISO (baseDate st) ((int (fst it) + 1) + 3) of
                              Inl e \<Rightarrow> Inl e | Inr due \<Rightarrow> Inr (id_task (snd it), due))
                    (enumerate 0 checkedInOrder)))"

text \<open>The body of the \<^verbatim>\<open>try\<close> of \<^verbatim>\<open>onThrow\<close> up to the toast: the store and the toast, or the error.\<close>

definition throwStep :: "nat option \<Rightarrow> int \<Rightarrow> App \<Rightarrow> Doc list \<Rightarrow> Doc list \<times> (error + Toast)" where
  "throwStep fail now st db =
     (case throwAction st of
        SWIPE \<Rightarrow>
          (case swipeItems st of
             Inl e \<Rightarrow> (db, Inl e)
           | Inr items \<Rightarrow>
               (case rescheduleTasksIndividually fail now items 1 db of
                  (db', None) \<Rightarrow> (db', Inr (Told ''swipe''))
                | (db', Some e) \<Rightarrow> (db', Inl e)))
      | DONE \<Rightarrow>
          (case completeTasks fail now (selectedIds st) (baseDate st) 1 1 db of
             (db', None) \<Rightarrow> (db', Inr (Told ''done+1''))
           | (db', Some e) \<Rightarrow> (db', Inl e))
      | REMOVE \<Rightarrow>
          (case removeTasks fail now (selectedIds st) True 1 db of
             (db', None) \<Rightarrow> (db', Inr (Told ''removed''))
           | (db', Some e) \<Rightarrow> (db', Inl e))
      | a \<Rightarrow>
          (case addDaysISO (baseDate st) (case actionToDays a of Some n \<Rightarrow> n | None \<Rightarrow> 0) of
             Inl e \<Rightarrow> (db, Inl e)
           | Inr target \<Rightarrow>
               (case rescheduleTasks fail now (selectedIds st) target 1 db of
                  (db', None) \<Rightarrow> (db', Inr (Told (''thrown to '' @ target)))
                | (db', Some e) \<Rightarrow> (db', Inl e))))"

definition onThrow :: "nat option \<Rightarrow> int \<Rightarrow> App \<times> Doc list \<Rightarrow> App \<times> Doc list" where
  "onThrow fail now w =
     (case w of (st, db) \<Rightarrow>
        (case user st of
           None \<Rightarrow> (st\<lparr>authOpen := True\<rparr>, db)
         | Some u \<Rightarrow>
             if selectedIds st = [] then (st, db)
             else (case throwStep fail now st db of
                     (db', Inr t) \<Rightarrow>
                       ((refresh u db' (st\<lparr>msg := Some t, selected := []\<rparr>))\<lparr>busy := False\<rparr>, db')
                   | (db', Inl e) \<Rightarrow> (st\<lparr>msg := Some (Caught e), busy := False\<rparr>, db'))))"

definition onBackFromFuture :: "nat option \<Rightarrow> int \<Rightarrow> string \<Rightarrow> App \<times> Doc list \<Rightarrow> App \<times> Doc list" where
  "onBackFromFuture fail now i w =
     (case w of (st, db) \<Rightarrow>
        (case user st of
           None \<Rightarrow> (st\<lparr>authOpen := True\<rparr>, db)
         | Some u \<Rightarrow>
             (case updateTask fail now i
                     (noPatch\<lparr>set_dueDate := Some (baseDate st),
                        set_sorter := Some (nextSorterForSortOrder
                                              (todayTasks (allTasks st) (baseDate st)) 24)\<rparr>) db of
                (db', None) \<Rightarrow> ((refresh u db' st)\<lparr>msg := Some (Told ''back''), busy := False\<rparr>, db')
              | (db', Some e) \<Rightarrow> (st\<lparr>msg := Some (Caught e), busy := False\<rparr>, db'))))"

definition onBackFromRemoved :: "nat option \<Rightarrow> int \<Rightarrow> string \<Rightarrow> App \<times> Doc list \<Rightarrow> App \<times> Doc list" where
  "onBackFromRemoved fail now i w =
     (case w of (st, db) \<Rightarrow>
        (case user st of
           None \<Rightarrow> (st\<lparr>authOpen := True\<rparr>, db)
         | Some u \<Rightarrow>
             (case updateTask fail now i
                     (noPatch\<lparr>set_dueDate := Some (baseDate st), set_removed := Some False,
                        set_sorter := Some (nextSorterForSortOrder
                                              (todayTasks (allTasks st) (baseDate st)) 24)\<rparr>) db of
                (db', None) \<Rightarrow> ((refresh u db' st)\<lparr>msg := Some (Told ''restored''), busy := False\<rparr>, db')
              | (db', Some e) \<Rightarrow> (st\<lparr>msg := Some (Caught e), busy := False\<rparr>, db'))))"

subsection \<open>Drag and drop\<close>

text \<open>\<^verbatim>\<open>ids.indexOf(x)\<close>; \<open>None\<close> is the source's -1.\<close>

fun indexOf :: "'a list \<Rightarrow> 'a \<Rightarrow> nat option" where
  "indexOf [] x = None"
| "indexOf (y # ys) x = (if y = x then Some 0 else map_option Suc (indexOf ys x))"

text \<open>
  \<^verbatim>\<open>arrayMove\<close> of dnd-kit, for two indices of the array: the item is taken out and
  spliced in at \<open>to\<close>.
\<close>

definition arrayMove :: "'a list \<Rightarrow> nat \<Rightarrow> nat \<Rightarrow> 'a list" where
  "arrayMove xs from to =
     (let rest = take from xs @ drop (Suc from) xs
      in take to rest @ (xs ! from) # drop to rest)"

text \<open>The \<^verbatim>\<open>updates\<close> of \<^verbatim>\<open>onDragEnd\<close>: id, sorter and sortOrder for each item of the moved list.\<close>

definition dragUpdates :: "Task list \<Rightarrow> nat \<Rightarrow> (string \<times> int \<times> int) list" where
  "dragUpdates moved newIndex =
     (let movedTask = moved ! newIndex;
          prev = (if newIndex > 0 then Some (moved ! (newIndex - 1)) else None);
          next = (if newIndex + 1 < length moved then Some (moved ! (newIndex + 1)) else None);
          inheritedSO =
            (case prev of
               Some p \<Rightarrow> clampSortOrder (sortOrder p)
             | None \<Rightarrow>
                 (case next of
                    Some n \<Rightarrow> clampSortOrder (sortOrder n)
                  | None \<Rightarrow> clampSortOrder (sortOrder movedTask)))
      in map (\<lambda>it. (id_task (snd it), (int (fst it) + 1) * 1000,
                    if id_task (snd it) = id_task movedTask then inheritedSO
                    else clampSortOrder (sortOrder (snd it))))
           (enumerate 0 moved))"

text \<open>
  The local update of \<^verbatim>\<open>allTasks\<close>: a task whose id is a key of the \<^verbatim>\<open>Map\<close> built from the
  updates (a later entry replaces an earlier one of the same id) takes its sorter and
  sortOrder.
\<close>

definition applyOrdering :: "(string \<times> int \<times> int) list \<Rightarrow> Task list \<Rightarrow> Task list" where
  "applyOrdering updates tasks =
     map (\<lambda>t. case map_of (rev updates) (id_task t) of
                None \<Rightarrow> t
              | Some v \<Rightarrow> t\<lparr>sorter := fst v, sortOrder := snd v\<rparr>) tasks"

text \<open>
  \<^verbatim>\<open>onDragEnd\<close>; \<open>active\<close> and \<open>over\<close> are the ids of the event, \<open>None\<close> when the event has
  none.
\<close>

definition onDragEnd ::
  "nat option \<Rightarrow> int \<Rightarrow> string option \<Rightarrow> string option \<Rightarrow> App \<times> Doc list \<Rightarrow> App \<times> Doc list" where
  "onDragEnd fail now active over w =
     (case w of (st, db) \<Rightarrow>
        (case (active, over) of
           (Some a, Some b) \<Rightarrow>
             if a = [] \<or> b = [] then (st, db)
             else if a = b then (st, db)
             else (case user st of
                     None \<Rightarrow> (st\<lparr>authOpen := True\<rparr>, db)
                   | Some u \<Rightarrow>
                       (let today = todayTasks (allTasks st) (baseDate st);
                            ids = map id_task today
                        in case (indexOf ids a, indexOf ids b) of
                             (Some oldIndex, Some newIndex) \<Rightarrow>
                               (let moved = arrayMove today oldIndex newIndex;
                                    updates = dragUpdates moved newIndex;
                                    st1 = syncSelected
                                            (st\<lparr>allTasks := applyOrdering updates (allTasks st)\<rparr>)
                                in case updateOrdering fail now updates db of
                                     (db', None) \<Rightarrow>
                                       (st1\<lparr>msg := Some (Told ''reordered''), busy := False\<rparr>, db')
                                   | (db', Some e) \<Rightarrow>
                                       ((refresh u db' (st1\<lparr>msg := Some (Caught e)\<rparr>))
                                          \<lparr>busy := False\<rparr>, db'))
                           | _ \<Rightarrow> (st, db)))
         | _ \<Rightarrow> (st, db)))"

text \<open>A task for the examples: id, due date, removed flag, band, sorter, creation time.\<close>

definition mkTask :: "string \<Rightarrow> string \<Rightarrow> bool \<Rightarrow> int \<Rightarrow> int \<Rightarrow> int \<Rightarrow> Task" where
  "mkTask i due rm so s c =
     \<lparr>id_task = i, uid = ''u'', title = ''t'', dueDate = due, removed = rm, doneCount = 0,
      lastDoneDate = [], throwCount = 0, sortOrder = so, sorter = s, createdAtMs = c,
      updatedAtMs = c\<rparr>"

text \<open>A stored document and a signed-in state for the examples.\<close>

definition mkDoc :: "string \<Rightarrow> string \<Rightarrow> bool \<Rightarrow> int \<Rightarrow> int \<Rightarrow> int \<Rightarrow> Doc" where
  "mkDoc i due rm so s c =
     \<lparr>doc_id = i, f_uid = Some ''u'', f_title = Some ''t'', f_dueDate = Some due,
      f_removed = Some rm, f_doneCount = Some 0, f_lastDoneDate = Some [], f_throwCount = Some 0,
      f_sortOrder = Some so, f_sorter = Some s, f_createdAtMs = Some c, f_updatedAtMs = Some c\<rparr>"

definition mkApp :: "string \<Rightarrow> Doc list \<Rightarrow> (string \<times> bool) list \<Rightarrow> ThrowAction \<Rightarrow> App" where
  "mkApp R db sel a =
     \<lparr>user = Some ''u'', authOpen = False, baseDate = R, allTasks = listTasks ''u'' db,
      selected = sel, throwAction = a, busy = False, msg = None\<rparr>"

text \<open>A record of an older schema: no due date, no band, no sorter.\<close>

definition oldDoc :: Doc where
  "oldDoc =
     \<lparr>doc_id = ''x'', f_uid = Some ''u'', f_title = Some ''t'', f_dueDate = None,
      f_removed = None, f_doneCount = None, f_lastDoneDate = None, f_throwCount = None,
      f_sortOrder = None, f_sorter = None, f_createdAtMs = Some 1700000000000,
      f_updatedAtMs = None\<rparr>"

text \<open>
  The scenario of the drag: bands 1, 1, 3 with sorters 1000, 2000, 1000, all due on the
  reference date 2024-06-01.
\<close>

definition dragStore :: "Doc list" where
  "dragStore =
     [mkDoc ''A'' ''2024-06-01'' False 1 1000 1, mkDoc ''B'' ''2024-06-01'' False 1 2000 2,
      mkDoc ''C'' ''2024-06-01'' False 3 1000 3]"

definition dragState :: App where
  "dragState = mkApp ''2024-06-01'' dragStore [] TOMORROW"

section \<open>The three views partition the tasks\<close>

lemma str_lt_irrefl: "\<not> str_lt a a"
  by (induction a) auto

lemma set_insert_by: "set (insert_by cmp x xs) = insert x (set xs)"
  by (induction xs) auto

lemma set_sort_by: "set (sort_by cmp xs) = set xs"
  unfolding sort_by_def by (induction xs) (auto simp: set_insert_by)

lemma in_todayTasks:
  "t \<in> set (todayTasks tasks R) \<longleftrightarrow> t \<in> set tasks \<and> \<not> removed t \<and> js_le (dueDate t) R"
  by (auto simp: todayTasks_def activeTasks_def set_sort_by)

lemma in_futureTasks:
  "t \<in> set (futureTasks tasks R) \<longleftrightarrow> t \<in> set tasks \<and> \<not> removed t \<and> js_gt (dueDate t) R"
  by (auto simp: futureTasks_def activeTasks_def set_sort_by)

lemma in_removedTasks:
  "t \<in> set (removedTasks tasks) \<longleftrightarrow> t \<in> set tasks \<and> removed t"
  by (auto simp: removedTasks_def set_sort_by)

text \<open>
  C1. Every task of the task set is in exactly one of the lists Today, Future and Removed for a
  reference date \<open>R\<close>: in Today iff it is not removed and its due date is \<open>\<le> R\<close>, in Future iff
  it is not removed and its due date is \<open>> R\<close>, in Removed iff it is removed. Which list holds
  it is decided by its due date, its removed flag and \<open>R\<close> alone (the three membership
  conditions mention nothing else), and a due date equal to \<open>R\<close> is never in Future and is in
  Today unless the task is removed.
\<close>

theorem partition_exactly_one:
  assumes "t \<in> set tasks"
  shows "(t \<in> set (todayTasks tasks R) \<longleftrightarrow> \<not> removed t \<and> js_le (dueDate t) R)
       \<and> (t \<in> set (futureTasks tasks R) \<longleftrightarrow> \<not> removed t \<and> js_gt (dueDate t) R)
       \<and> (t \<in> set (removedTasks tasks) \<longleftrightarrow> removed t)
       \<and> (t \<in> set (todayTasks tasks R) \<or> t \<in> set (futureTasks tasks R)
            \<or> t \<in> set (removedTasks tasks))
       \<and> \<not> (t \<in> set (todayTasks tasks R) \<and> t \<in> set (futureTasks tasks R))
       \<and> \<not> (t \<in> set (todayTasks tasks R) \<and> t \<in> set (removedTasks tasks))
       \<and> \<not> (t \<in> set (futureTasks tasks R) \<and> t \<in> set (removedTasks tasks))
       \<and> (dueDate t = R \<longrightarrow>
             t \<notin> set (futureTasks tasks R)
             \<and> (t \<in> set (todayTasks tasks R) \<longleftrightarrow> \<not> removed t))"
  using assms
  by (auto simp: in_todayTasks in_futureTasks in_removedTasks js_le_def js_gt_def str_lt_irrefl)

theorem partition_exactly_one_witness:
  "mkTask ''a'' ''2024-01-01'' False 24 1000 1 \<in> set [mkTask ''a'' ''2024-01-01'' False 24 1000 1]
   \<and> mkTask ''a'' ''2024-01-01'' False 24 1000 1
        \<in> set (todayTasks [mkTask ''a'' ''2024-01-01'' False 24 1000 1] ''2024-01-01'')
   \<and> mkTask ''a'' ''2024-01-01'' False 24 1000 1
        \<notin> set (futureTasks [mkTask ''a'' ''2024-01-01'' False 24 1000 1] ''2024-01-01'')
   \<and> mkTask ''a'' ''2024-01-01'' False 24 1000 1
        \<notin> set (removedTasks [mkTask ''a'' ''2024-01-01'' False 24 1000 1])"
  using partition_exactly_one [of "mkTask ''a'' ''2024-01-01'' False 24 1000 1"
      "[mkTask ''a'' ''2024-01-01'' False 24 1000 1]" "''2024-01-01''"]
  by (simp add: mkTask_def js_le_def js_gt_def str_lt_irrefl)

section \<open>Issuing a sorter\<close>

lemma js_or_zero: "js_or a 0 = a"
  by (simp add: js_or_def)

lemma foldl_max_sorter:
  "foldl (\<lambda>acc t. max acc (sorter t)) a xs = Max (insert a (sorter ` set xs))"
proof (induction xs arbitrary: a)
  case Nil
  then show ?case by simp
next
  case (Cons x xs)
  have "Max (insert (max a (sorter x)) (sorter ` set xs))
      = Max (insert a (insert (sorter x) (sorter ` set xs)))"
    by (cases "set xs = {}") (simp_all add: max.assoc)
  with Cons show ?case by simp
qed

lemma nextSorter_eq:
  "nextSorterForSortOrder today b =
     Max (insert 0 (sorter ` set (filter (\<lambda>t. clampSortOrder (sortOrder t) = clampSortOrder b) today)))
       + 1000"
  by (simp add: nextSorterForSortOrder_def Let_def foldl_max_sorter js_or_zero)

lemma sorter_read_nonneg:
  "0 \<le> num (f_createdAtMs d) \<Longrightarrow> 0 \<le> num (f_updatedAtMs d) \<Longrightarrow> 0 \<le> sorter (readDoc d)"
  by (simp add: readDoc_def Let_def js_or_def)

lemma today_sorters_nonneg:
  assumes "\<forall>d \<in> set db. 0 \<le> num (f_createdAtMs d) \<and> 0 \<le> num (f_updatedAtMs d)"
  shows "\<forall>t \<in> set (todayTasks (listTasks u db) R). 0 \<le> sorter t"
  using assms by (auto simp: in_todayTasks listTasks_def sorter_read_nonneg)

text \<open>
  C7. The sorters of a Today list are those that \<open>listTasks\<close> reads and those that a drag
  writes: \<open>listTasks\<close> replaces a sorter that is not positive by a time stamp, so with time
  stamps that are not negative no sorter of Today is negative (\<open>today_sorters_nonneg\<close>), and
  the program writes multiples of 1000 and time stamps, far below \<open>2^53\<close>. For every band \<open>b\<close>
  and every Today list whose sorters are between 0 and \<open>2^53 - 1000\<close> (so that the sum the
  source computes on doubles is the exact one), \<open>nextSorterForSortOrder\<close> returns 1000 when no
  Today task is in band \<open>b\<close> and otherwise the greatest sorter of the Today tasks in band \<open>b\<close>
  plus 1000; the value is strictly greater than every sorter present in band \<open>b\<close>, and at
  most \<open>2^53\<close>. (A task is in band \<open>b\<close> when its clamped sortOrder is the clamped \<open>b\<close>, as the
  source compares them.)
\<close>

theorem assign_sorter:
  assumes "\<forall>t \<in> set today. 0 \<le> sorter t \<and> sorter t \<le> 9007199254739992"
  shows "(filter (\<lambda>t. clampSortOrder (sortOrder t) = clampSortOrder b) today = [] \<longrightarrow>
      nextSorterForSortOrder today b = 1000)
   \<and> (filter (\<lambda>t. clampSortOrder (sortOrder t) = clampSortOrder b) today \<noteq> [] \<longrightarrow>
      nextSorterForSortOrder today b =
        Max (sorter ` set (filter (\<lambda>t. clampSortOrder (sortOrder t) = clampSortOrder b) today))
          + 1000)
   \<and> (\<forall>t \<in> set (filter (\<lambda>t. clampSortOrder (sortOrder t) = clampSortOrder b) today).
        sorter t < nextSorterForSortOrder today b)
   \<and> nextSorterForSortOrder today b \<le> 9007199254740992"
proof -
  let ?band = "filter (\<lambda>t. clampSortOrder (sortOrder t) = clampSortOrder b) today"
  let ?S = "sorter ` set ?band"
  have fin: "finite ?S" by simp
  have fin0: "finite (insert 0 ?S)" using fin by (rule finite.insertI)
  have rng: "\<And>x. x \<in> ?S \<Longrightarrow> 0 \<le> x \<and> x \<le> 9007199254739992"
    using assms by auto
  have r: "nextSorterForSortOrder today b = Max (insert 0 ?S) + 1000"
    by (rule nextSorter_eq)
  have empty: "?band = [] \<longrightarrow> nextSorterForSortOrder today b = 1000"
  proof
    assume "?band = []"
    then have "Max (insert 0 ?S) = 0" by simp
    with r show "nextSorterForSortOrder today b = 1000" by linarith
  qed
  have nonempty: "?band \<noteq> [] \<longrightarrow> nextSorterForSortOrder today b = Max ?S + 1000"
  proof
    assume "?band \<noteq> []"
    then have "set ?band \<noteq> {}" by (simp only: set_empty not_False_eq_True)
    then have ne: "?S \<noteq> {}" by (simp only: image_is_empty not_False_eq_True)
    with fin have m: "Max (insert 0 ?S) = max 0 (Max ?S)"
      by (rule Max_insert)
    from fin ne have "Max ?S \<in> ?S" by (rule Max_in)
    then have "0 \<le> Max ?S" using rng by blast
    with m r show "nextSorterForSortOrder today b = Max ?S + 1000" by linarith
  qed
  have above: "\<forall>t \<in> set ?band. sorter t < nextSorterForSortOrder today b"
  proof
    fix t assume "t \<in> set ?band"
    then have "sorter t \<in> insert 0 ?S" by blast
    with fin0 have "sorter t \<le> Max (insert 0 ?S)" by (rule Max_ge)
    with r show "sorter t < nextSorterForSortOrder today b" by linarith
  qed
  have "Max (insert 0 ?S) \<in> insert 0 ?S" using fin0 by (rule Max_in) simp
  then have "Max (insert 0 ?S) \<le> 9007199254739992" using rng by auto
  with r have bound: "nextSorterForSortOrder today b \<le> 9007199254740992" by linarith
  show ?thesis by (rule conjI [OF empty conjI [OF nonempty conjI [OF above bound]]])
qed

theorem assign_sorter_witness:
  "list_all (\<lambda>t. 0 \<le> sorter t \<and> sorter t \<le> 9007199254739992)
      (todayTasks (listTasks ''u''
        [mkDoc ''a'' ''2024-01-01'' False 1 1000 1, mkDoc ''b'' ''2024-01-01'' False 1 2000 2,
         mkDoc ''c'' ''2024-01-01'' False 3 7000 3]) ''2024-01-01'')
   \<and> nextSorterForSortOrder (todayTasks (listTasks ''u''
        [mkDoc ''a'' ''2024-01-01'' False 1 1000 1, mkDoc ''b'' ''2024-01-01'' False 1 2000 2,
         mkDoc ''c'' ''2024-01-01'' False 3 7000 3]) ''2024-01-01'') 1 = 3000
   \<and> nextSorterForSortOrder (todayTasks (listTasks ''u''
        [mkDoc ''a'' ''2024-01-01'' False 1 1000 1, mkDoc ''b'' ''2024-01-01'' False 1 2000 2,
         mkDoc ''c'' ''2024-01-01'' False 3 7000 3]) ''2024-01-01'') 2 = 1000"
proof -
  let ?today = "todayTasks (listTasks ''u''
        [mkDoc ''a'' ''2024-01-01'' False 1 1000 1, mkDoc ''b'' ''2024-01-01'' False 1 2000 2,
         mkDoc ''c'' ''2024-01-01'' False 3 7000 3]) ''2024-01-01''"
  have h: "\<forall>t \<in> set ?today. 0 \<le> sorter t \<and> sorter t \<le> 9007199254739992"
    by code_simp
  have ne: "filter (\<lambda>t. clampSortOrder (sortOrder t) = clampSortOrder 1) ?today \<noteq> []"
    by code_simp
  have mx: "Max (sorter ` set (filter (\<lambda>t. clampSortOrder (sortOrder t) = clampSortOrder 1) ?today))
      = 2000"
    by code_simp
  have e: "filter (\<lambda>t. clampSortOrder (sortOrder t) = clampSortOrder 2) ?today = []"
    by code_simp
  note inst1 = assign_sorter [OF h, of 1]
  note inst2 = assign_sorter [OF h, of 2]
  have "nextSorterForSortOrder ?today 1 =
      Max (sorter ` set (filter (\<lambda>t. clampSortOrder (sortOrder t) = clampSortOrder 1) ?today)) + 1000"
    by (rule inst1 [THEN conjunct2, THEN conjunct1, rule_format, OF ne])
  then have r1: "nextSorterForSortOrder ?today 1 = 3000"
    by (simp only: mx)
  have r2: "nextSorterForSortOrder ?today 2 = 1000"
    by (rule inst2 [THEN conjunct1, rule_format, OF e])
  from h have h': "list_all (\<lambda>t. 0 \<le> sorter t \<and> sorter t \<le> 9007199254739992) ?today"
    by (simp only: list_all_iff)
  show ?thesis by (rule conjI [OF h' conjI [OF r1 r2]])
qed

section \<open>Restoring a removed task\<close>

text \<open>
  C4. The claim asks for a sorter issued in the task's own band. \<open>onBackFromRemoved\<close> passes
  the constant 24 to \<open>nextSorterForSortOrder\<close>: with task \<open>D\<close> removed in band 10 and task
  \<open>E\<close> in Today in band 10 with sorter 5000, restoring \<open>D\<close> sets its due date to the
  reference date and its removed flag to false, keeps band 10, and gives it the sorter 1000
  (band 24 is empty) where the claim says 6000.
\<close>

theorem restore_ignores_band:
  "map (\<lambda>t. (id_task t, removed t, dueDate t, sortOrder t, sorter t))
     (allTasks (fst (onBackFromRemoved None 77 ''D''
        (mkApp ''2024-06-01''
           [mkDoc ''D'' ''2024-05-01'' True 10 1000 4, mkDoc ''E'' ''2024-06-01'' False 10 5000 5]
           [] TOMORROW,
         [mkDoc ''D'' ''2024-05-01'' True 10 1000 4, mkDoc ''E'' ''2024-06-01'' False 10 5000 5]))))
   = [(''D'', False, ''2024-06-01'', 10, 1000), (''E'', False, ''2024-06-01'', 10, 5000)]
   \<and> nextSorterForSortOrder
         (todayTasks (listTasks ''u''
            [mkDoc ''D'' ''2024-05-01'' True 10 1000 4, mkDoc ''E'' ''2024-06-01'' False 10 5000 5])
            ''2024-06-01'') 10 = 6000"
  by code_simp

section \<open>Reading stored records\<close>

lemma sortOrder_readDoc:
  "sortOrder (readDoc d) =
     (if num (f_sortOrder d) < 1 \<or> num (f_sortOrder d) > 24
      then min 24 (max 1 (js_or ((sorter (readDoc d) + 500) div 1000) 24))
      else num (f_sortOrder d))"
  by (simp add: readDoc_def Let_def js_or_zero)

lemma sorter_readDoc:
  "sorter (readDoc d) =
     (if num (f_sorter d) \<le> 0 then js_or (num (f_createdAtMs d)) (num (f_updatedAtMs d))
      else num (f_sorter d))"
  by (simp add: readDoc_def Let_def js_or_def)

lemma dueDate_readDoc:
  "dueDate (readDoc d) = (if str (f_dueDate d) \<noteq> [] then str (f_dueDate d) else ''9999-12-31'')"
  by (simp add: readDoc_def Let_def)

lemma removed_readDoc: "removed (readDoc d) = bool_js (f_removed d)"
  by (simp add: readDoc_def Let_def)

lemma str_None: "str None = []"
  by (simp add: str_def trim_def)

lemma sortOrder_readDoc_range: "1 \<le> sortOrder (readDoc d) \<and> sortOrder (readDoc d) \<le> 24"
  by (simp add: sortOrder_readDoc)

lemma str_lt_asym: "str_lt a b \<Longrightarrow> \<not> str_lt b a"
  by (induction a b rule: str_lt.induct) (auto split: if_splits)

lemma str_lt_trans: "str_lt a b \<Longrightarrow> str_lt b c \<Longrightarrow> str_lt a c"
proof (induction a b arbitrary: c rule: str_lt.induct)
  case 1
  then show ?case by simp
next
  case (2 y ys)
  then show ?case by (cases c) simp_all
next
  case (3 x xs)
  then show ?case by simp
next
  case (4 x xs y ys)
  then show ?case by (cases c) (auto split: if_splits)
qed

lemma str_lt_total: "\<not> str_lt a b \<Longrightarrow> \<not> str_lt b a \<Longrightarrow> a = b"
proof (induction a b rule: str_lt.induct)
  case (4 x xs y ys)
  then have "(of_char x :: nat) = of_char y" by (auto split: if_splits)
  then have "x = y" by simp
  with 4 show ?case by (auto split: if_splits)
qed simp_all

text \<open>When the comparator of Future puts \<open>a\<close> not after \<open>b\<close>.\<close>

lemma cmpFuture_le:
  "cmpFuture a b \<le> 0 \<longleftrightarrow>
     str_lt (dueDate a) (dueDate b) \<or> (dueDate a = dueDate b \<and> createdAtMs a \<le> createdAtMs b)"
  using str_lt_irrefl [of "dueDate a"] str_lt_asym [of "dueDate a" "dueDate b"]
    str_lt_total [of "dueDate a" "dueDate b"]
  by (auto simp: cmpFuture_def localeCompare_def)

lemma cmpFuture_total: "cmpFuture a b \<le> 0 \<or> cmpFuture b a \<le> 0"
  using str_lt_total [of "dueDate a" "dueDate b"] by (auto simp: cmpFuture_le)

lemma cmpFuture_trans: "cmpFuture a b \<le> 0 \<Longrightarrow> cmpFuture b c \<le> 0 \<Longrightarrow> cmpFuture a c \<le> 0"
  using str_lt_trans [of "dueDate a" "dueDate b" "dueDate c"]
  by (auto simp: cmpFuture_le)

text \<open>The insertion sort sorts, for a comparator that is total and transitive.\<close>

lemma sorted_insert_by:
  assumes total: "\<And>x y. cmp x y \<le> 0 \<or> cmp y x \<le> 0"
    and trans: "\<And>x y z. cmp x y \<le> 0 \<Longrightarrow> cmp y z \<le> 0 \<Longrightarrow> cmp x z \<le> 0"
  shows "sorted_wrt (\<lambda>x y. cmp x y \<le> 0) xs \<Longrightarrow>
         sorted_wrt (\<lambda>x y. cmp x y \<le> 0) (insert_by cmp x xs)"
proof (induction xs)
  case Nil
  then show ?case by simp
next
  case (Cons y ys)
  show ?case
  proof (cases "cmp x y \<le> 0")
    case True
    with Cons.prems trans show ?thesis by auto
  next
    case False
    with total have yx: "cmp y x \<le> 0" by blast
    from Cons have "sorted_wrt (\<lambda>x y. cmp x y \<le> 0) (insert_by cmp x ys)" by simp
    with False yx Cons.prems show ?thesis by (auto simp: set_insert_by)
  qed
qed

lemma sorted_sort_by:
  assumes "\<And>x y. cmp x y \<le> 0 \<or> cmp y x \<le> 0"
    and "\<And>x y z. cmp x y \<le> 0 \<Longrightarrow> cmp y z \<le> 0 \<Longrightarrow> cmp x z \<le> 0"
  shows "sorted_wrt (\<lambda>x y. cmp x y \<le> 0) (sort_by cmp xs)"
  unfolding sort_by_def
  by (induction xs) (simp_all add: sorted_insert_by [OF assms])

lemma sorted_futureTasks:
  "sorted_wrt (\<lambda>x y. cmpFuture x y \<le> 0) (futureTasks tasks R)"
  unfolding futureTasks_def
  by (rule sorted_sort_by) (rule cmpFuture_total, rule cmpFuture_trans)

lemma later_is_lower:
  assumes "p < length (futureTasks tasks R)" and "q < length (futureTasks tasks R)"
    and "str_lt (dueDate (futureTasks tasks R ! q)) (dueDate (futureTasks tasks R ! p))"
  shows "q < p"
proof (rule ccontr)
  assume "\<not> q < p"
  then have "p = q \<or> p < q" by auto
  then show False
  proof
    assume "p = q"
    with assms(3) show False by (simp add: str_lt_irrefl)
  next
    assume "p < q"
    with sorted_futureTasks [of tasks R] assms(2)
    have "cmpFuture (futureTasks tasks R ! p) (futureTasks tasks R ! q) \<le> 0"
      by (simp add: sorted_wrt_iff_nth_less)
    with assms(3) show False
      using str_lt_asym [of "dueDate (futureTasks tasks R ! q)" "dueDate (futureTasks tasks R ! p)"]
        str_lt_irrefl [of "dueDate (futureTasks tasks R ! q)"]
      by (auto simp: cmpFuture_le)
  qed
qed

text \<open>
  C5, as amended. For every stored record that \<open>listTasks\<close> reads: a sortOrder that is
  missing or outside 1..24 is replaced by the band derived from the (normalised) sorter,
  \<open>round(sorter / 1000)\<close> clamped to 1..24, which is 24 only when that quotient is 0 or at
  least 24; a stored sortOrder within 1..24 is kept; in every case the band is within 1..24. A
  missing or non-positive sorter becomes createdAt, or updatedAt when createdAt is missing or
  0. A missing dueDate becomes 9999-12-31, so that for every reference date before it the
  record, unless removed, is in Future and not in Today; and when the due dates read have the
  form YYYY-MM-DD, every task of the Future list with an earlier due date stands before the
  record in that list. Reading is total: no record makes it fail.
\<close>

theorem readDoc_defaults:
  "(f_sortOrder d = None \<or> num (f_sortOrder d) < 1 \<or> 24 < num (f_sortOrder d) \<longrightarrow>
      sortOrder (readDoc d) = min 24 (max 1 (js_or ((sorter (readDoc d) + 500) div 1000) 24)))
   \<and> ((f_sortOrder d = None \<or> num (f_sortOrder d) < 1 \<or> 24 < num (f_sortOrder d))
        \<and> ((sorter (readDoc d) + 500) div 1000 = 0 \<or> 24 \<le> (sorter (readDoc d) + 500) div 1000) \<longrightarrow>
      sortOrder (readDoc d) = 24)
   \<and> (1 \<le> num (f_sortOrder d) \<and> num (f_sortOrder d) \<le> 24 \<longrightarrow>
      sortOrder (readDoc d) = num (f_sortOrder d))
   \<and> 1 \<le> sortOrder (readDoc d) \<and> sortOrder (readDoc d) \<le> 24
   \<and> (f_sorter d = None \<or> num (f_sorter d) \<le> 0 \<longrightarrow>
      sorter (readDoc d) = js_or (num (f_createdAtMs d)) (num (f_updatedAtMs d)))
   \<and> (f_dueDate d = None \<longrightarrow> dueDate (readDoc d) = ''9999-12-31'')
   \<and> (f_dueDate d = None \<and> \<not> bool_js (f_removed d) \<and> d \<in> set db \<and> f_uid d = Some u
        \<and> str_lt R ''9999-12-31'' \<longrightarrow>
      readDoc d \<in> set (futureTasks (listTasks u db) R)
      \<and> readDoc d \<notin> set (todayTasks (listTasks u db) R))
   \<and> (f_dueDate d = None \<and> (\<forall>t \<in> set (listTasks u db). isISODate (dueDate t)) \<longrightarrow>
      (\<forall>p q. p < length (futureTasks (listTasks u db) R)
             \<and> q < length (futureTasks (listTasks u db) R)
             \<and> futureTasks (listTasks u db) R ! p = readDoc d
             \<and> str_lt (dueDate (futureTasks (listTasks u db) R ! q)) ''9999-12-31'' \<longrightarrow> q < p))"
proof -
  have n0: "f_sortOrder d = None \<Longrightarrow> num (f_sortOrder d) < 1"
    by (simp add: num_def)
  have so: "f_sortOrder d = None \<or> num (f_sortOrder d) < 1 \<or> 24 < num (f_sortOrder d) \<longrightarrow>
      sortOrder (readDoc d) = min 24 (max 1 (js_or ((sorter (readDoc d) + 500) div 1000) 24))"
    using n0 by (auto simp: sortOrder_readDoc)
  have so24: "(f_sortOrder d = None \<or> num (f_sortOrder d) < 1 \<or> 24 < num (f_sortOrder d))
        \<and> ((sorter (readDoc d) + 500) div 1000 = 0 \<or> 24 \<le> (sorter (readDoc d) + 500) div 1000) \<longrightarrow>
      sortOrder (readDoc d) = 24"
    using n0 by (auto simp: sortOrder_readDoc js_or_def)
  have keep: "1 \<le> num (f_sortOrder d) \<and> num (f_sortOrder d) \<le> 24 \<longrightarrow>
      sortOrder (readDoc d) = num (f_sortOrder d)"
    by (auto simp: sortOrder_readDoc)
  have rng: "1 \<le> sortOrder (readDoc d) \<and> sortOrder (readDoc d) \<le> 24"
    by (rule sortOrder_readDoc_range)
  have srt: "f_sorter d = None \<or> num (f_sorter d) \<le> 0 \<longrightarrow>
      sorter (readDoc d) = js_or (num (f_createdAtMs d)) (num (f_updatedAtMs d))"
    by (auto simp: sorter_readDoc num_def)
  have due: "f_dueDate d = None \<longrightarrow> dueDate (readDoc d) = ''9999-12-31''"
    by (simp add: dueDate_readDoc str_None)
  have fut: "f_dueDate d = None \<and> \<not> bool_js (f_removed d) \<and> d \<in> set db \<and> f_uid d = Some u
        \<and> str_lt R ''9999-12-31'' \<longrightarrow>
      readDoc d \<in> set (futureTasks (listTasks u db) R)
      \<and> readDoc d \<notin> set (todayTasks (listTasks u db) R)"
  proof
    assume h: "f_dueDate d = None \<and> \<not> bool_js (f_removed d) \<and> d \<in> set db \<and> f_uid d = Some u
        \<and> str_lt R ''9999-12-31''"
    then have mem: "readDoc d \<in> set (listTasks u db)"
      by (simp add: listTasks_def)
    from h due have dd: "dueDate (readDoc d) = ''9999-12-31''" by simp
    from h have nr: "\<not> removed (readDoc d)" by (simp add: removed_readDoc)
    from h have lt: "str_lt R ''9999-12-31''" by simp
    show "readDoc d \<in> set (futureTasks (listTasks u db) R)
      \<and> readDoc d \<notin> set (todayTasks (listTasks u db) R)"
      using mem nr lt by (simp add: in_futureTasks in_todayTasks dd js_gt_def js_le_def)
  qed
  have bottom: "f_dueDate d = None \<and> (\<forall>t \<in> set (listTasks u db). isISODate (dueDate t)) \<longrightarrow>
      (\<forall>p q. p < length (futureTasks (listTasks u db) R)
             \<and> q < length (futureTasks (listTasks u db) R)
             \<and> futureTasks (listTasks u db) R ! p = readDoc d
             \<and> str_lt (dueDate (futureTasks (listTasks u db) R ! q)) ''9999-12-31'' \<longrightarrow> q < p)"
  proof (intro impI allI)
    fix p q
    assume h: "f_dueDate d = None \<and> (\<forall>t \<in> set (listTasks u db). isISODate (dueDate t))"
      and pq: "p < length (futureTasks (listTasks u db) R)
             \<and> q < length (futureTasks (listTasks u db) R)
             \<and> futureTasks (listTasks u db) R ! p = readDoc d
             \<and> str_lt (dueDate (futureTasks (listTasks u db) R ! q)) ''9999-12-31''"
    from h due have dd: "dueDate (readDoc d) = ''9999-12-31''" by simp
    from pq dd have "str_lt (dueDate (futureTasks (listTasks u db) R ! q))
        (dueDate (futureTasks (listTasks u db) R ! p))"
      by simp
    with pq show "q < p" using later_is_lower [of p "listTasks u db" R q] by simp
  qed
  show ?thesis
    by (rule conjI [OF so conjI [OF so24 conjI [OF keep conjI [OF conjunct1 [OF rng]
          conjI [OF conjunct2 [OF rng] conjI [OF srt conjI [OF due conjI [OF fut bottom]]]]]]]])
qed

text \<open>
  The claim as it was stated fails on a record without sortOrder whose sorter is 3000: it is
  read with band 3, not 24.
\<close>

theorem readDoc_defaults_counterexample:
  "sortOrder (readDoc \<lparr>doc_id = ''x'', f_uid = Some ''u'', f_title = Some ''t'',
       f_dueDate = Some ''2024-06-01'', f_removed = Some False, f_doneCount = Some 0,
       f_lastDoneDate = None, f_throwCount = Some 0, f_sortOrder = None, f_sorter = Some 3000,
       f_createdAtMs = Some 1700000000000, f_updatedAtMs = Some 1700000000000\<rparr>) = 3"
  by code_simp

theorem readDoc_defaults_witness:
  "f_sortOrder oldDoc = None
   \<and> 24 \<le> (sorter (readDoc oldDoc) + 500) div 1000
   \<and> sortOrder (readDoc oldDoc) = 24
   \<and> f_sorter oldDoc = None
   \<and> sorter (readDoc oldDoc) = 1700000000000
   \<and> f_dueDate oldDoc = None
   \<and> dueDate (readDoc oldDoc) = ''9999-12-31''
   \<and> \<not> bool_js (f_removed oldDoc) \<and> f_uid oldDoc = Some ''u''
   \<and> str_lt ''2024-06-01'' ''9999-12-31''
   \<and> list_all (\<lambda>t. isISODate (dueDate t))
        (listTasks ''u'' [oldDoc, mkDoc ''a'' ''2024-06-02'' False 1 1000 1])
   \<and> readDoc oldDoc
        \<in> set (futureTasks (listTasks ''u'' [oldDoc, mkDoc ''a'' ''2024-06-02'' False 1 1000 1])
                 ''2024-06-01'')
   \<and> readDoc oldDoc
        \<notin> set (todayTasks (listTasks ''u'' [oldDoc, mkDoc ''a'' ''2024-06-02'' False 1 1000 1])
                 ''2024-06-01'')
   \<and> map id_task (futureTasks (listTasks ''u'' [oldDoc, mkDoc ''a'' ''2024-06-02'' False 1 1000 1])
                    ''2024-06-01'') = [''a'', ''x'']
   \<and> (0 :: nat) < 1"
proof -
  let ?db = "[oldDoc, mkDoc ''a'' ''2024-06-02'' False 1 1000 1]"
  let ?F = "futureTasks (listTasks ''u'' ?db) ''2024-06-01''"
  note inst = readDoc_defaults [of oldDoc ?db "''u''" "''2024-06-01''"]
  have h1: "f_sortOrder oldDoc = None" by (simp add: oldDoc_def)
  have h2: "24 \<le> (sorter (readDoc oldDoc) + 500) div 1000" by code_simp
  have h3: "f_sorter oldDoc = None" by (simp add: oldDoc_def)
  have h4: "f_dueDate oldDoc = None" by (simp add: oldDoc_def)
  have h5: "\<not> bool_js (f_removed oldDoc)" by (simp add: oldDoc_def bool_js_def)
  have h6: "oldDoc \<in> set ?db" by simp
  have h7: "f_uid oldDoc = Some ''u''" by (simp add: oldDoc_def)
  have h8: "str_lt ''2024-06-01'' ''9999-12-31''" by simp
  have h9: "\<forall>t \<in> set (listTasks ''u'' ?db). isISODate (dueDate t)" by code_simp
  then have h9': "list_all (\<lambda>t. isISODate (dueDate t)) (listTasks ''u'' ?db)"
    by (simp only: list_all_iff)
  have p1: "1 < length ?F" by code_simp
  have p2: "0 < length ?F" by code_simp
  have p3: "?F ! 1 = readDoc oldDoc" by code_simp
  have p4: "str_lt (dueDate (?F ! 0)) ''9999-12-31''" by code_simp
  have ids: "map id_task ?F = [''a'', ''x'']" by code_simp
  have c1: "sortOrder (readDoc oldDoc) = 24"
    using inst h1 h2 by simp
  have "sorter (readDoc oldDoc) = js_or (num (f_createdAtMs oldDoc)) (num (f_updatedAtMs oldDoc))"
    using inst h3 by simp
  then have c2: "sorter (readDoc oldDoc) = 1700000000000"
    by (simp add: oldDoc_def num_def js_or_def)
  have c3: "dueDate (readDoc oldDoc) = ''9999-12-31''"
    using inst h4 by simp
  have c4: "readDoc oldDoc \<in> set ?F \<and> readDoc oldDoc \<notin> set (todayTasks (listTasks ''u'' ?db) ''2024-06-01'')"
    using inst h4 h5 h6 h7 h8 by simp
  have "\<forall>p q. p < length ?F \<and> q < length ?F \<and> ?F ! p = readDoc oldDoc
             \<and> str_lt (dueDate (?F ! q)) ''9999-12-31'' \<longrightarrow> q < p"
    using inst h4 h9 by blast
  then have c5: "(0 :: nat) < 1" using p1 p2 p3 p4 by blast
  show ?thesis
    using h1 h2 c1 h3 c2 h4 c3 h5 h7 h8 h9' c4 ids c5 by (intro conjI) simp_all
qed

section \<open>What a mutation leaves in the store\<close>

lemma commit_Nil: "commit now [] db = db"
  by (simp add: commit_def)

lemma commit_Cons:
  "commit now (u # us) db =
     commit now us (map (\<lambda>d. if doc_id d = fst u then update_doc now (snd u) d else d) db)"
  by (simp add: commit_def)

lemma commit_append: "commit now (xs @ ys) db = commit now ys (commit now xs db)"
  by (simp add: commit_def)

lemma run_batches_None:
  "run_batches None now bs db = (foldl (\<lambda>d part. commit now part d) db bs, None)"
  by (induction bs arbitrary: db) simp_all

lemma foldl_commit_chunk:
  "0 < n \<Longrightarrow> foldl (\<lambda>d part. commit now part d) db (chunk ups n) = commit now ups db"
proof (induction ups n arbitrary: db rule: chunk.induct)
  case (1 arr sz)
  show ?case
  proof (cases "arr = []")
    case True
    then show ?thesis by (simp add: chunk.simps commit_Nil)
  next
    case False
    with 1 have "foldl (\<lambda>d part. commit now part d) (commit now (take sz arr) db) (chunk (drop sz arr) sz)
        = commit now (drop sz arr) (commit now (take sz arr) db)"
      by simp
    moreover have "chunk arr sz = take sz arr # chunk (drop sz arr) sz"
      using False 1(2) by (subst chunk.simps) simp
    moreover have "commit now (drop sz arr) (commit now (take sz arr) db) = commit now arr db"
      by (simp add: commit_append [symmetric])
    ultimately show ?thesis by simp
  qed
qed

lemma batchUpdate_None: "batchUpdate None ups now db = (commit now ups db, None)"
  by (simp add: batchUpdate_def run_batches_None foldl_commit_chunk)

lemma doc_id_update_doc: "doc_id (update_doc now p d) = doc_id d"
  by (simp add: update_doc_def)

lemma commit_distinct:
  "distinct (map fst ups) \<Longrightarrow>
   commit now ups db =
     map (\<lambda>d. case map_of ups (doc_id d) of None \<Rightarrow> d | Some p \<Rightarrow> update_doc now p d) db"
proof (induction ups arbitrary: db)
  case Nil
  then show ?case by (simp add: commit_Nil)
next
  case (Cons u us)
  obtain k p where u: "u = (k, p)" by (cases u)
  from Cons.prems u have notin: "k \<notin> fst ` set us" and dist: "distinct (map fst us)" by auto
  have none: "map_of us k = None"
    using notin by (simp add: map_of_eq_None_iff)
  show ?case
    unfolding commit_Cons Cons.IH [OF dist] u
    by (auto simp: doc_id_update_doc none)
qed

lemma uniq_from_set: "set (uniq_from seen xs) = {x \<in> set xs. x \<noteq> [] \<and> x \<notin> set seen}"
  by (induction seen xs rule: uniq_from.induct) auto

lemma uniq_from_distinct: "distinct (uniq_from seen xs)"
  by (induction seen xs rule: uniq_from.induct) (auto simp: uniq_from_set)

lemma set_uniq: "set (uniq ids) = {x \<in> set ids. x \<noteq> []}"
  by (simp add: uniq_def uniq_from_set)

lemma distinct_uniq: "distinct (uniq ids)"
  by (simp add: uniq_def uniq_from_distinct)

lemma map_of_const:
  "map_of (map (\<lambda>i. (i, p)) ids) k = (if k \<in> set ids then Some p else None)"
  by (induction ids) auto

lemma commit_same_patch:
  "distinct ids \<Longrightarrow>
   commit now (map (\<lambda>i. (i, p)) ids) db =
     map (\<lambda>d. if doc_id d \<in> set ids then update_doc now p d else d) db"
  by (subst commit_distinct) (simp_all add: comp_def map_of_const)

lemma removeTasks_None:
  "removeTasks None now ids rm delta db =
     (map (\<lambda>d. if doc_id d \<in> set ids \<and> doc_id d \<noteq> []
                then update_doc now (noPatch\<lparr>set_removed := Some rm,
                       inc_throwCount := (if delta \<noteq> 0 then Some delta else None)\<rparr>) d
                else d) db, None)"
proof (cases "uniq ids = []")
  case True
  then have "{x \<in> set ids. x \<noteq> []} = {}" using set_uniq [of ids] by simp
  then have idm: "\<And>f. map (\<lambda>d. if doc_id d \<in> set ids \<and> doc_id d \<noteq> [] then f d else d) db = db"
    by (intro map_idI) auto
  show ?thesis using True by (simp add: removeTasks_def idm)
next
  case False
  then show ?thesis
    by (simp add: removeTasks_def Let_def batchUpdate_None commit_same_patch distinct_uniq set_uniq)
qed

lemma update_doc_remove_plain:
  "update_doc now (noPatch\<lparr>set_removed := Some rm, inc_throwCount := None\<rparr>) d
     = d\<lparr>f_removed := Some rm, f_updatedAtMs := Some now\<rparr>"
  by (simp add: update_doc_def noPatch_def)

lemma update_doc_remove_throw:
  "update_doc now (noPatch\<lparr>set_removed := Some rm, inc_throwCount := Some n\<rparr>) d
     = d\<lparr>f_removed := Some rm, f_throwCount := Some (num (f_throwCount d) + n),
         f_updatedAtMs := Some now\<rparr>"
  by (simp add: update_doc_def noPatch_def)

lemma onRemove_store:
  "user st = Some u \<Longrightarrow>
   snd (onRemove None now i (st, db)) =
     map (\<lambda>d. if doc_id d = i \<and> i \<noteq> []
               then d\<lparr>f_removed := Some True, f_updatedAtMs := Some now\<rparr> else d) db"
  by (auto simp: onRemove_def removeTasks_None update_doc_remove_plain)

lemma onThrow_REMOVE_store:
  "user st = Some u \<Longrightarrow> throwAction st = REMOVE \<Longrightarrow> selectedIds st \<noteq> [] \<Longrightarrow>
   snd (onThrow None now (st, db)) =
     map (\<lambda>d. if doc_id d \<in> set (selectedIds st) \<and> doc_id d \<noteq> []
               then d\<lparr>f_removed := Some True, f_throwCount := Some (num (f_throwCount d) + 1),
                      f_updatedAtMs := Some now\<rparr>
               else d) db"
  by (simp add: onThrow_def throwStep_def removeTasks_None update_doc_remove_throw)

text \<open>
  C10. A plain single-item Remove (\<open>onRemove\<close>) that the store commits sets \<open>removed\<close> to true
  on the document of that id and leaves every \<open>throwCount\<close> of the store as it was (beside
  \<open>removed\<close> only the store's \<open>updatedAt\<close> stamp changes). BulkThrow(Remove) (\<open>onThrow\<close> with
  the action REMOVE and a non-empty selection) that the store commits sets \<open>removed\<close> to true
  and adds exactly 1 to \<open>throwCount\<close> on the document of every selected id, and changes no
  other document. Only the throw variant touches \<open>throwCount\<close>.
\<close>

theorem remove_and_throw_remove:
  "(user st = Some u \<longrightarrow>
      snd (onRemove None now i (st, db)) =
        map (\<lambda>d. if doc_id d = i \<and> i \<noteq> []
                  then d\<lparr>f_removed := Some True, f_updatedAtMs := Some now\<rparr> else d) db
      \<and> map f_throwCount (snd (onRemove None now i (st, db))) = map f_throwCount db)
   \<and> (user st = Some u \<and> throwAction st = REMOVE \<and> selectedIds st \<noteq> [] \<longrightarrow>
      snd (onThrow None now (st, db)) =
        map (\<lambda>d. if doc_id d \<in> set (selectedIds st) \<and> doc_id d \<noteq> []
                  then d\<lparr>f_removed := Some True,
                         f_throwCount := Some (num (f_throwCount d) + 1),
                         f_updatedAtMs := Some now\<rparr>
                  else d) db
      \<and> map (\<lambda>d. num (f_throwCount d)) (snd (onThrow None now (st, db))) =
          map (\<lambda>d. num (f_throwCount d)
                     + (if doc_id d \<in> set (selectedIds st) \<and> doc_id d \<noteq> [] then 1 else 0)) db)"
proof -
  have plain: "user st = Some u \<longrightarrow>
      snd (onRemove None now i (st, db)) =
        map (\<lambda>d. if doc_id d = i \<and> i \<noteq> []
                  then d\<lparr>f_removed := Some True, f_updatedAtMs := Some now\<rparr> else d) db
      \<and> map f_throwCount (snd (onRemove None now i (st, db))) = map f_throwCount db"
  proof
    assume u: "user st = Some u"
    show "snd (onRemove None now i (st, db)) =
        map (\<lambda>d. if doc_id d = i \<and> i \<noteq> []
                  then d\<lparr>f_removed := Some True, f_updatedAtMs := Some now\<rparr> else d) db
      \<and> map f_throwCount (snd (onRemove None now i (st, db))) = map f_throwCount db"
      unfolding onRemove_store [OF u] by simp
  qed
  have thrown: "user st = Some u \<and> throwAction st = REMOVE \<and> selectedIds st \<noteq> [] \<longrightarrow>
      snd (onThrow None now (st, db)) =
        map (\<lambda>d. if doc_id d \<in> set (selectedIds st) \<and> doc_id d \<noteq> []
                  then d\<lparr>f_removed := Some True,
                         f_throwCount := Some (num (f_throwCount d) + 1),
                         f_updatedAtMs := Some now\<rparr>
                  else d) db
      \<and> map (\<lambda>d. num (f_throwCount d)) (snd (onThrow None now (st, db))) =
          map (\<lambda>d. num (f_throwCount d)
                     + (if doc_id d \<in> set (selectedIds st) \<and> doc_id d \<noteq> [] then 1 else 0)) db"
  proof
    assume h: "user st = Some u \<and> throwAction st = REMOVE \<and> selectedIds st \<noteq> []"
    then have u: "user st = Some u" and a: "throwAction st = REMOVE" and s: "selectedIds st \<noteq> []"
      by simp_all
    show "snd (onThrow None now (st, db)) =
        map (\<lambda>d. if doc_id d \<in> set (selectedIds st) \<and> doc_id d \<noteq> []
                  then d\<lparr>f_removed := Some True,
                         f_throwCount := Some (num (f_throwCount d) + 1),
                         f_updatedAtMs := Some now\<rparr>
                  else d) db
      \<and> map (\<lambda>d. num (f_throwCount d)) (snd (onThrow None now (st, db))) =
          map (\<lambda>d. num (f_throwCount d)
                     + (if doc_id d \<in> set (selectedIds st) \<and> doc_id d \<noteq> [] then 1 else 0)) db"
      unfolding onThrow_REMOVE_store [OF u a s] by (simp add: num_def)
  qed
  show ?thesis by (rule conjI [OF plain thrown])
qed

theorem remove_and_throw_remove_witness:
  "user (mkApp ''2024-06-01''
           [mkDoc ''A'' ''2024-06-01'' False 1 1000 1, mkDoc ''B'' ''2024-06-01'' False 1 2000 2]
           [(''A'', True), (''B'', True)] REMOVE) = Some ''u''
   \<and> throwAction (mkApp ''2024-06-01''
           [mkDoc ''A'' ''2024-06-01'' False 1 1000 1, mkDoc ''B'' ''2024-06-01'' False 1 2000 2]
           [(''A'', True), (''B'', True)] REMOVE) = REMOVE
   \<and> selectedIds (mkApp ''2024-06-01''
           [mkDoc ''A'' ''2024-06-01'' False 1 1000 1, mkDoc ''B'' ''2024-06-01'' False 1 2000 2]
           [(''A'', True), (''B'', True)] REMOVE) \<noteq> []
   \<and> map (\<lambda>d. (doc_id d, f_removed d, f_throwCount d))
        (snd (onRemove None 77 ''A''
           (mkApp ''2024-06-01''
              [mkDoc ''A'' ''2024-06-01'' False 1 1000 1, mkDoc ''B'' ''2024-06-01'' False 1 2000 2]
              [(''A'', True), (''B'', True)] REMOVE,
            [mkDoc ''A'' ''2024-06-01'' False 1 1000 1, mkDoc ''B'' ''2024-06-01'' False 1 2000 2])))
      = [(''A'', Some True, Some 0), (''B'', Some False, Some 0)]
   \<and> map (\<lambda>d. (doc_id d, f_removed d, f_throwCount d))
        (snd (onThrow None 77
           (mkApp ''2024-06-01''
              [mkDoc ''A'' ''2024-06-01'' False 1 1000 1, mkDoc ''B'' ''2024-06-01'' False 1 2000 2]
              [(''A'', True), (''B'', True)] REMOVE,
            [mkDoc ''A'' ''2024-06-01'' False 1 1000 1, mkDoc ''B'' ''2024-06-01'' False 1 2000 2])))
      = [(''A'', Some True, Some 1), (''B'', Some True, Some 1)]"
proof -
  let ?db = "[mkDoc ''A'' ''2024-06-01'' False 1 1000 1, mkDoc ''B'' ''2024-06-01'' False 1 2000 2]"
  let ?st = "mkApp ''2024-06-01'' ?db [(''A'', True), (''B'', True)] REMOVE"
  note inst = remove_and_throw_remove [of ?st "''u''" 77 "''A''" ?db]
  have h1: "user ?st = Some ''u''" by (simp add: mkApp_def)
  have h2: "throwAction ?st = REMOVE" by (simp add: mkApp_def)
  have h3: "selectedIds ?st \<noteq> []" by (simp add: mkApp_def selectedIds_def is_selected_def)
  have ids: "set (selectedIds ?st) = {''A'', ''B''}"
    by (auto simp: mkApp_def selectedIds_def is_selected_def)
  from inst h1 have e1: "snd (onRemove None 77 ''A'' (?st, ?db)) =
        map (\<lambda>d. if doc_id d = ''A'' \<and> ''A'' \<noteq> []
                  then d\<lparr>f_removed := Some True, f_updatedAtMs := Some 77\<rparr> else d) ?db"
    by simp
  from inst h1 h2 h3 have e2: "snd (onThrow None 77 (?st, ?db)) =
        map (\<lambda>d. if doc_id d \<in> set (selectedIds ?st) \<and> doc_id d \<noteq> []
                  then d\<lparr>f_removed := Some True,
                         f_throwCount := Some (num (f_throwCount d) + 1),
                         f_updatedAtMs := Some 77\<rparr>
                  else d) ?db"
    by simp
  have c1: "map (\<lambda>d. (doc_id d, f_removed d, f_throwCount d)) (snd (onRemove None 77 ''A'' (?st, ?db)))
      = [(''A'', Some True, Some 0), (''B'', Some False, Some 0)]"
    unfolding e1 by (simp add: mkDoc_def)
  have c2: "map (\<lambda>d. (doc_id d, f_removed d, f_throwCount d)) (snd (onThrow None 77 (?st, ?db)))
      = [(''A'', Some True, Some 1), (''B'', Some True, Some 1)]"
    unfolding e2 ids by (simp add: mkDoc_def num_def)
  show ?thesis by (rule conjI [OF h1 conjI [OF h2 conjI [OF h3 conjI [OF c1 c2]]]])
qed

section \<open>The selection after a bulk throw\<close>

lemma addDaysISO_Inr: "isISODate b \<Longrightarrow> \<exists>s. addDaysISO b n = Inr s"
  by (auto simp: addDaysISO_def parseISO_def setUTCDate_def split: option.splits)

lemma addDaysISO_Inl: "\<not> isISODate b \<Longrightarrow> addDaysISO b n = Inl InvalidBaseISO"
  by (simp add: addDaysISO_def)

lemma collect_map_Inr:
  "(\<And>x. x \<in> set xs \<Longrightarrow> f x = Inr (g x)) \<Longrightarrow> collect (map f xs) = Inr (map g xs)"
  by (induction xs) auto

lemma swipeItems_Inr: "isISODate (baseDate st) \<Longrightarrow> \<exists>items. swipeItems st = Inr items"
proof -
  assume iso: "isISODate (baseDate st)"
  define due where "due n = (SOME s. addDaysISO (baseDate st) n = Inr s)" for n
  have due: "addDaysISO (baseDate st) n = Inr (due n)" for n
    unfolding due_def using addDaysISO_Inr [OF iso, of n] by (rule someI_ex)
  show ?thesis
    unfolding swipeItems_def Let_def
    by (rule exI, rule collect_map_Inr [where g = "\<lambda>it. (id_task (snd it), due ((int (fst it) + 1) + 3))"])
       (simp add: due)
qed

lemma rescheduleTasksIndividually_None:
  "snd (rescheduleTasksIndividually None now items delta db) = None"
  by (simp add: rescheduleTasksIndividually_def Let_def batchUpdate_None)

lemma completeTasks_None: "snd (completeTasks None now ids done dd td db) = None"
  by (simp add: completeTasks_def Let_def batchUpdate_None)

lemma rescheduleTasks_None: "snd (rescheduleTasks None now ids due td db) = None"
  by (simp add: rescheduleTasks_def Let_def batchUpdate_None)

lemma removeTasks_None_ok: "snd (removeTasks None now ids rm td db) = None"
  by (simp add: removeTasks_None)

lemma throwStep_None:
  assumes "isISODate (baseDate st) \<or> throwAction st = DONE \<or> throwAction st = REMOVE"
  shows "\<exists>db' t. throwStep None now st db = (db', Inr t)"
proof (cases "throwAction st = DONE \<or> throwAction st = REMOVE")
  case True
  then show ?thesis
  proof
    assume a: "throwAction st = DONE"
    obtain db' r where c: "completeTasks None now (selectedIds st) (baseDate st) 1 1 db = (db', r)"
      by (cases "completeTasks None now (selectedIds st) (baseDate st) 1 1 db")
    with completeTasks_None [of now "selectedIds st" "baseDate st" 1 1 db] have "r = None" by simp
    with a c show ?thesis by (simp add: throwStep_def)
  next
    assume a: "throwAction st = REMOVE"
    then show ?thesis by (simp add: throwStep_def removeTasks_None)
  qed
next
  case False
  with assms have iso: "isISODate (baseDate st)" by blast
  show ?thesis
  proof (cases "throwAction st = SWIPE")
    case True
    from swipeItems_Inr [OF iso] obtain items where it: "swipeItems st = Inr items" ..
    obtain db' r where c: "rescheduleTasksIndividually None now items 1 db = (db', r)"
      by (cases "rescheduleTasksIndividually None now items 1 db")
    with rescheduleTasksIndividually_None [of now items 1 db] have "r = None" by simp
    with True it c show ?thesis by (simp add: throwStep_def)
  next
    case ns: False
    obtain n where n: "(case actionToDays (throwAction st) of Some n \<Rightarrow> n | None \<Rightarrow> 0) = n" by simp
    from addDaysISO_Inr [OF iso, of n] obtain target
      where t: "addDaysISO (baseDate st) n = Inr target" ..
    obtain db' r where c: "rescheduleTasks None now (selectedIds st) target 1 db = (db', r)"
      by (cases "rescheduleTasks None now (selectedIds st) target 1 db")
    with rescheduleTasks_None [of now "selectedIds st" target 1 db] have "r = None" by simp
    with False ns n t c show ?thesis
      by (cases "throwAction st") (simp_all add: throwStep_def)
  qed
qed

lemma onThrow_Inr:
  "user st = Some u \<Longrightarrow> selectedIds st \<noteq> [] \<Longrightarrow> throwStep fail now st db = (db', Inr t) \<Longrightarrow>
   selected (fst (onThrow fail now (st, db))) = []"
  by (simp add: onThrow_def refresh_def syncSelected_def)

lemma onThrow_Inl:
  "user st = Some u \<Longrightarrow> selectedIds st \<noteq> [] \<Longrightarrow> throwStep fail now st db = (db', Inl e) \<Longrightarrow>
   fst (onThrow fail now (st, db)) = st\<lparr>msg := Some (Caught e), busy := False\<rparr>"
  by (simp add: onThrow_def)

lemma chunk_ne: "ups \<noteq> [] \<Longrightarrow> chunk ups 450 = take 450 ups # chunk (drop 450 ups) 450"
  by (subst chunk.simps) simp

lemma batchUpdate_fail0: "ups \<noteq> [] \<Longrightarrow> batchUpdate (Some 0) ups now db = (db, Some BatchFailed)"
  by (simp add: batchUpdate_def chunk_ne)

lemma throwStep_fail0:
  assumes "uniq (selectedIds st) \<noteq> []" "throwAction st = DONE \<or> throwAction st = REMOVE"
  shows "throwStep (Some 0) now st db = (db, Inl BatchFailed)"
  using assms
  by (auto simp: throwStep_def completeTasks_def removeTasks_def Let_def batchUpdate_fail0)

text \<open>
  C6, as amended. After \<open>onThrow\<close> with a signed-in user and a non-empty selection, the
  selection is empty whenever the body of the \<open>try\<close> completes, which it does when the store
  commits every batch and the reference date is a well-formed date (for the actions DONE and
  REMOVE the date is not needed). When the body throws (a commit is rejected, or \<open>addDaysISO\<close>
  rejects the reference date) the handler only shows the error: the selection and the task
  list are left exactly as they were. Such a failure happens, for instance, when the first
  commit of a DONE or REMOVE throw is rejected.
\<close>

theorem throw_selection:
  "(user st = Some u \<and> selectedIds st \<noteq> []
      \<and> (isISODate (baseDate st) \<or> throwAction st = DONE \<or> throwAction st = REMOVE) \<longrightarrow>
      selected (fst (onThrow None now (st, db))) = [])
   \<and> (user st = Some u \<and> selectedIds st \<noteq> [] \<and> snd (throwStep fail now st db) = Inl e \<longrightarrow>
      selected (fst (onThrow fail now (st, db))) = selected st
      \<and> allTasks (fst (onThrow fail now (st, db))) = allTasks st
      \<and> msg (fst (onThrow fail now (st, db))) = Some (Caught e))
   \<and> (user st = Some u \<and> uniq (selectedIds st) \<noteq> []
      \<and> (throwAction st = DONE \<or> throwAction st = REMOVE) \<longrightarrow>
      snd (throwStep (Some 0) now st db) = Inl BatchFailed
      \<and> selected (fst (onThrow (Some 0) now (st, db))) = selected st)"
proof -
  have ok: "user st = Some u \<and> selectedIds st \<noteq> []
      \<and> (isISODate (baseDate st) \<or> throwAction st = DONE \<or> throwAction st = REMOVE) \<longrightarrow>
      selected (fst (onThrow None now (st, db))) = []"
  proof
    assume h: "user st = Some u \<and> selectedIds st \<noteq> []
      \<and> (isISODate (baseDate st) \<or> throwAction st = DONE \<or> throwAction st = REMOVE)"
    then obtain db' t where "throwStep None now st db = (db', Inr t)"
      using throwStep_None [of st now db] by blast
    with h show "selected (fst (onThrow None now (st, db))) = []"
      using onThrow_Inr [of st u None now db db' t] by blast
  qed
  have failed: "user st = Some u \<and> selectedIds st \<noteq> [] \<and> snd (throwStep fail now st db) = Inl e \<longrightarrow>
      selected (fst (onThrow fail now (st, db))) = selected st
      \<and> allTasks (fst (onThrow fail now (st, db))) = allTasks st
      \<and> msg (fst (onThrow fail now (st, db))) = Some (Caught e)"
  proof
    assume h: "user st = Some u \<and> selectedIds st \<noteq> [] \<and> snd (throwStep fail now st db) = Inl e"
    then obtain db' where "throwStep fail now st db = (db', Inl e)"
      by (cases "throwStep fail now st db") simp
    with h have "fst (onThrow fail now (st, db)) = st\<lparr>msg := Some (Caught e), busy := False\<rparr>"
      using onThrow_Inl [of st u fail now db db' e] by blast
    then show "selected (fst (onThrow fail now (st, db))) = selected st
      \<and> allTasks (fst (onThrow fail now (st, db))) = allTasks st
      \<and> msg (fst (onThrow fail now (st, db))) = Some (Caught e)"
      by simp
  qed
  have rejected: "user st = Some u \<and> uniq (selectedIds st) \<noteq> []
      \<and> (throwAction st = DONE \<or> throwAction st = REMOVE) \<longrightarrow>
      snd (throwStep (Some 0) now st db) = Inl BatchFailed
      \<and> selected (fst (onThrow (Some 0) now (st, db))) = selected st"
  proof
    assume h: "user st = Some u \<and> uniq (selectedIds st) \<noteq> []
      \<and> (throwAction st = DONE \<or> throwAction st = REMOVE)"
    then have ts: "throwStep (Some 0) now st db = (db, Inl BatchFailed)"
      using throwStep_fail0 [of st now db] by blast
    from h have ne: "selectedIds st \<noteq> []" by (auto simp: uniq_def)
    from h ne ts have "fst (onThrow (Some 0) now (st, db)) = st\<lparr>msg := Some (Caught BatchFailed), busy := False\<rparr>"
      using onThrow_Inl [of st u "Some 0" now db db BatchFailed] by blast
    with ts show "snd (throwStep (Some 0) now st db) = Inl BatchFailed
      \<and> selected (fst (onThrow (Some 0) now (st, db))) = selected st"
      by simp
  qed
  show ?thesis by (rule conjI [OF ok conjI [OF failed rejected]])
qed

text \<open>
  The claim as it was stated fails when the store rejects the commit: the selection of the
  two tasks is still there after the handler.
\<close>

theorem throw_selection_counterexample:
  "selectedIds (mkApp ''2024-06-01''
       [mkDoc ''A'' ''2024-06-01'' False 1 1000 1, mkDoc ''B'' ''2024-06-01'' False 1 2000 2]
       [(''A'', True), (''B'', True)] REMOVE) = [''A'', ''B'']
   \<and> selected (fst (onThrow (Some 0) 77
        (mkApp ''2024-06-01''
           [mkDoc ''A'' ''2024-06-01'' False 1 1000 1, mkDoc ''B'' ''2024-06-01'' False 1 2000 2]
           [(''A'', True), (''B'', True)] REMOVE,
         [mkDoc ''A'' ''2024-06-01'' False 1 1000 1, mkDoc ''B'' ''2024-06-01'' False 1 2000 2])))
       = [(''A'', True), (''B'', True)]"
  by code_simp

theorem throw_selection_witness:
  "user (mkApp ''2024-06-01''
       [mkDoc ''A'' ''2024-06-01'' False 1 1000 1, mkDoc ''B'' ''2024-06-01'' False 1 2000 2]
       [(''A'', True), (''B'', True)] REMOVE) = Some ''u''
   \<and> selectedIds (mkApp ''2024-06-01''
       [mkDoc ''A'' ''2024-06-01'' False 1 1000 1, mkDoc ''B'' ''2024-06-01'' False 1 2000 2]
       [(''A'', True), (''B'', True)] REMOVE) \<noteq> []
   \<and> uniq (selectedIds (mkApp ''2024-06-01''
       [mkDoc ''A'' ''2024-06-01'' False 1 1000 1, mkDoc ''B'' ''2024-06-01'' False 1 2000 2]
       [(''A'', True), (''B'', True)] REMOVE)) \<noteq> []
   \<and> isISODate (baseDate (mkApp ''2024-06-01''
       [mkDoc ''A'' ''2024-06-01'' False 1 1000 1, mkDoc ''B'' ''2024-06-01'' False 1 2000 2]
       [(''A'', True), (''B'', True)] REMOVE))
   \<and> throwAction (mkApp ''2024-06-01''
       [mkDoc ''A'' ''2024-06-01'' False 1 1000 1, mkDoc ''B'' ''2024-06-01'' False 1 2000 2]
       [(''A'', True), (''B'', True)] REMOVE) = REMOVE
   \<and> selected (fst (onThrow None 77
        (mkApp ''2024-06-01''
           [mkDoc ''A'' ''2024-06-01'' False 1 1000 1, mkDoc ''B'' ''2024-06-01'' False 1 2000 2]
           [(''A'', True), (''B'', True)] REMOVE,
         [mkDoc ''A'' ''2024-06-01'' False 1 1000 1, mkDoc ''B'' ''2024-06-01'' False 1 2000 2]))) = []
   \<and> snd (throwStep (Some 0) 77
        (mkApp ''2024-06-01''
           [mkDoc ''A'' ''2024-06-01'' False 1 1000 1, mkDoc ''B'' ''2024-06-01'' False 1 2000 2]
           [(''A'', True), (''B'', True)] REMOVE)
        [mkDoc ''A'' ''2024-06-01'' False 1 1000 1, mkDoc ''B'' ''2024-06-01'' False 1 2000 2])
       = Inl BatchFailed
   \<and> selected (fst (onThrow (Some 0) 77
        (mkApp ''2024-06-01''
           [mkDoc ''A'' ''2024-06-01'' False 1 1000 1, mkDoc ''B'' ''2024-06-01'' False 1 2000 2]
           [(''A'', True), (''B'', True)] REMOVE,
         [mkDoc ''A'' ''2024-06-01'' False 1 1000 1, mkDoc ''B'' ''2024-06-01'' False 1 2000 2])))
       = selected (mkApp ''2024-06-01''
           [mkDoc ''A'' ''2024-06-01'' False 1 1000 1, mkDoc ''B'' ''2024-06-01'' False 1 2000 2]
           [(''A'', True), (''B'', True)] REMOVE)"
proof -
  let ?db = "[mkDoc ''A'' ''2024-06-01'' False 1 1000 1, mkDoc ''B'' ''2024-06-01'' False 1 2000 2]"
  let ?st = "mkApp ''2024-06-01'' ?db [(''A'', True), (''B'', True)] REMOVE"
  note inst = throw_selection [of ?st "''u''" 77 ?db "Some 0" BatchFailed]
  have h1: "user ?st = Some ''u''" by (simp add: mkApp_def)
  have h2: "selectedIds ?st \<noteq> []" by (simp add: mkApp_def selectedIds_def is_selected_def)
  have h3: "uniq (selectedIds ?st) \<noteq> []"
    by (simp add: mkApp_def selectedIds_def is_selected_def uniq_def)
  have h4: "isISODate (baseDate ?st)" by (simp add: mkApp_def is_digit_def)
  have h5: "throwAction ?st = REMOVE" by (simp add: mkApp_def)
  have c1: "selected (fst (onThrow None 77 (?st, ?db))) = []"
    using inst h1 h2 h4 by blast
  have c2: "snd (throwStep (Some 0) 77 ?st ?db) = Inl BatchFailed
      \<and> selected (fst (onThrow (Some 0) 77 (?st, ?db))) = selected ?st"
    using inst h1 h3 h5 by blast
  show ?thesis
    by (rule conjI [OF h1 conjI [OF h2 conjI [OF h3 conjI [OF h4 conjI [OF h5 conjI [OF c1 c2]]]]]])
qed

section \<open>Swipe: one day further for each selected task\<close>

lemma is_digit_digit_char: "n < 10 \<Longrightarrow> is_digit (digit_char n)"
  by (simp add: is_digit_def digit_char_def)

lemma show_nat_digits: "show_nat n \<noteq> [] \<and> (\<forall>c \<in> set (show_nat n). is_digit c)"
proof (induction n rule: show_nat.induct)
  case (1 n)
  show ?case
  proof (cases "n < 10")
    case True
    then show ?thesis by (subst (1 2) show_nat.simps) (simp add: is_digit_digit_char)
  next
    case False
    with 1 have ih: "\<forall>c \<in> set (show_nat (n div 10)). is_digit c" by simp
    have "is_digit (digit_char (n mod 10))" by (rule is_digit_digit_char) simp
    with ih False show ?thesis by (subst (1 2) show_nat.simps) auto
  qed
qed

lemma digit_not_space: "is_digit c \<Longrightarrow> \<not> is_space c"
  by (auto simp: is_digit_def is_space_def)

lemma minus_not_space: "\<not> is_space CHR ''-''"
  by (simp add: is_space_def)

lemma trim_id: "s \<noteq> [] \<Longrightarrow> \<not> is_space (hd s) \<Longrightarrow> \<not> is_space (last s) \<Longrightarrow> trim s = s"
proof -
  assume ne: "s \<noteq> []" and h: "\<not> is_space (hd s)" and l: "\<not> is_space (last s)"
  from ne h have a: "dropWhile is_space s = s" by (cases s) simp_all
  from ne l have b: "dropWhile is_space (rev s) = rev s"
    by (cases "rev s") (simp_all add: last_rev [symmetric] hd_rev)
  show ?thesis by (simp add: trim_def a b)
qed

lemma String_int_shape:
  "String_int i \<noteq> [] \<and> \<not> is_space (hd (String_int i)) \<and> \<not> is_space (last (String_int i))"
proof -
  have d: "\<And>n. show_nat n \<noteq> [] \<and> is_digit (hd (show_nat n)) \<and> is_digit (last (show_nat n))"
    using show_nat_digits by (metis hd_in_set last_in_set)
  show ?thesis
    using d [of "nat i"] d [of "nat (- i)"]
    by (auto simp: String_int_def digit_not_space minus_not_space)
qed

lemma pad2_shape: "pad2 n \<noteq> [] \<and> \<not> is_space (last (pad2 n))"
  using String_int_shape [of n] by (auto simp: pad2_def Let_def)

lemma toISO_clean: "toISO v \<noteq> [] \<and> trim (toISO v) = toISO v"
proof -
  obtain y m d where v: "v = (y, m, d)" by (cases v)
  have ne: "toISO v \<noteq> []" using String_int_shape [of y] by (simp add: v toISO_def)
  have h: "hd (toISO v) = hd (String_int y)"
    using String_int_shape [of y] by (simp add: v toISO_def)
  have l: "last (toISO v) = last (pad2 d)"
    using pad2_shape [of d] by (simp add: v toISO_def)
  show ?thesis
    using ne h l String_int_shape [of y] pad2_shape [of d] by (simp add: trim_id)
qed

lemma NaN_clean: "trim ''NaN-NaN-NaN'' = ''NaN-NaN-NaN''"
  by (simp add: trim_def is_space_def)

lemma addDaysISO_clean: "addDaysISO b n = Inr s \<Longrightarrow> s \<noteq> [] \<and> trim s = s"
  by (auto simp: addDaysISO_def parseISO_def setUTCDate_def toISO_clean NaN_clean
      split: if_splits option.splits)

lemma map_set_fresh: "k \<notin> fst ` set m \<Longrightarrow> map_set k v m = m @ [(k, v)]"
  by (induction m) auto

lemma rows_of_clean_gen:
  "distinct (map fst items) \<Longrightarrow> fst ` set items \<inter> fst ` set acc = {} \<Longrightarrow>
   (\<And>it. it \<in> set items \<Longrightarrow> fst it \<noteq> [] \<and> trim (fst it) = fst it \<and> snd it \<noteq> [] \<and> trim (snd it) = snd it) \<Longrightarrow>
   foldl (\<lambda>m it. let i = trim (fst it); due = trim (snd it)
                    in if i = [] \<or> due = [] then m else map_set i due m) acc items = acc @ items"
proof (induction items arbitrary: acc)
  case Nil
  then show ?case by simp
next
  case (Cons it items)
  have clean: "fst it \<noteq> [] \<and> trim (fst it) = fst it \<and> snd it \<noteq> [] \<and> trim (snd it) = snd it"
    using Cons.prems(3) by simp
  have fresh: "fst it \<notin> fst ` set acc" using Cons.prems(2) by auto
  have step: "(let i = trim (fst it); due = trim (snd it)
                    in if i = [] \<or> due = [] then acc else map_set i due acc) = acc @ [it]"
    using clean fresh by (simp add: map_set_fresh)
  have "foldl (\<lambda>m it. let i = trim (fst it); due = trim (snd it)
                    in if i = [] \<or> due = [] then m else map_set i due m) (acc @ [it]) items
      = (acc @ [it]) @ items"
  proof (rule Cons.IH)
    show "distinct (map fst items)" using Cons.prems(1) by simp
    show "fst ` set items \<inter> fst ` set (acc @ [it]) = {}"
      using Cons.prems(1,2) by auto
    show "\<And>x. x \<in> set items \<Longrightarrow> fst x \<noteq> [] \<and> trim (fst x) = fst x \<and> snd x \<noteq> [] \<and> trim (snd x) = snd x"
      using Cons.prems(3) by simp
  qed
  then show ?case by (simp only: foldl_Cons step) simp
qed

lemma rows_of_clean:
  "distinct (map fst items) \<Longrightarrow>
   (\<And>it. it \<in> set items \<Longrightarrow> fst it \<noteq> [] \<and> trim (fst it) = fst it \<and> snd it \<noteq> [] \<and> trim (snd it) = snd it) \<Longrightarrow>
   rows_of items = items"
  unfolding rows_of_def using rows_of_clean_gen [of items "[]"] by simp

lemma map_of_enumerate:
  "map_of (map (\<lambda>it. (key (snd it), g (fst it))) (enumerate n xs)) k
     = map_option (\<lambda>j. g (n + j)) (indexOf (map key xs) k)"
proof (induction xs arbitrary: n)
  case Nil
  then show ?case by simp
next
  case (Cons x xs)
  show ?case
    by (simp add: Cons.IH [of "Suc n"] option.map_comp comp_def)
qed

lemma update_doc_swipe:
  "update_doc now (noPatch\<lparr>set_dueDate := Some due, inc_throwCount := Some n\<rparr>) d
     = d\<lparr>f_dueDate := Some due, f_throwCount := Some (num (f_throwCount d) + n),
         f_updatedAtMs := Some now\<rparr>"
  by (simp add: update_doc_def noPatch_def)

lemma map_key_enumerate: "map (\<lambda>x. f (snd x)) (enumerate n xs) = map f xs"
  by (induction xs arbitrary: n) simp_all

lemma swipe_store:
  assumes u: "user st = Some u" and a: "throwAction st = SWIPE" and s: "selectedIds st \<noteq> []"
    and due: "\<And>n. addDaysISO (baseDate st) n = Inr (due n)"
    and checked: "checked = filter (\<lambda>t. is_selected st (id_task t)) (todayTasks (allTasks st) (baseDate st))"
    and dist: "distinct (map id_task checked)"
    and clean: "\<And>t. t \<in> set checked \<Longrightarrow> id_task t \<noteq> [] \<and> trim (id_task t) = id_task t"
  shows "snd (onThrow None now (st, db)) =
     map (\<lambda>d. case indexOf (map id_task checked) (doc_id d) of
                 None \<Rightarrow> d
               | Some i \<Rightarrow> d\<lparr>f_dueDate := Some (due (int i + 4)),
                               f_throwCount := Some (num (f_throwCount d) + 1),
                               f_updatedAtMs := Some now\<rparr>) db"
proof -
  define items where "items = map (\<lambda>it. (id_task (snd it), due ((int (fst it) + 1) + 3))) (enumerate 0 checked)"
  define ups where "ups = map (\<lambda>r. (fst r, noPatch\<lparr>set_dueDate := Some (snd r),
                              inc_throwCount := Some 1\<rparr>)) items"
  have "collect (map (\<lambda>it. case addDaysISO (baseDate st) ((int (fst it) + 1) + 3) of
                              Inl e \<Rightarrow> Inl e | Inr x \<Rightarrow> Inr (id_task (snd it), x))
                    (enumerate 0 checked))
      = Inr (map (\<lambda>it. (id_task (snd it), due ((int (fst it) + 1) + 3))) (enumerate 0 checked))"
    by (rule collect_map_Inr
          [of "enumerate 0 checked"
              "\<lambda>it. case addDaysISO (baseDate st) ((int (fst it) + 1) + 3) of
                              Inl e \<Rightarrow> Inl e | Inr x \<Rightarrow> Inr (id_task (snd it), x)"
              "\<lambda>it. (id_task (snd it), due ((int (fst it) + 1) + 3))"])
       (simp add: due)
  then have sw: "swipeItems st = Inr items"
    by (simp add: swipeItems_def Let_def checked [symmetric] items_def)
  have keys: "map fst items = map id_task checked"
    by (simp add: items_def comp_def map_key_enumerate)
  have item_clean: "\<And>it. it \<in> set items \<Longrightarrow>
      fst it \<noteq> [] \<and> trim (fst it) = fst it \<and> snd it \<noteq> [] \<and> trim (snd it) = snd it"
  proof -
    fix it assume "it \<in> set items"
    then obtain e where e: "e \<in> set (enumerate 0 checked)"
      and it: "it = (id_task (snd e), due ((int (fst e) + 1) + 3))"
      by (auto simp: items_def)
    from e have "snd e \<in> snd ` set (enumerate 0 checked)" by (rule imageI)
    then have "snd e \<in> set (map snd (enumerate 0 checked))" by (simp only: set_map)
    then have "snd e \<in> set checked" by (simp only: map_snd_enumerate)
    with clean have "id_task (snd e) \<noteq> [] \<and> trim (id_task (snd e)) = id_task (snd e)" by blast
    moreover have "due ((int (fst e) + 1) + 3) \<noteq> [] \<and> trim (due ((int (fst e) + 1) + 3)) = due ((int (fst e) + 1) + 3)"
      by (rule addDaysISO_clean [OF due])
    ultimately show "fst it \<noteq> [] \<and> trim (fst it) = fst it \<and> snd it \<noteq> [] \<and> trim (snd it) = snd it"
      by (simp add: it)
  qed
  have rows: "rows_of items = items"
    by (rule rows_of_clean) (simp_all add: keys dist item_clean)
  have ups_keys: "map fst ups = map id_task checked"
    by (simp add: ups_def comp_def keys [symmetric])
  have ups_eq: "ups = map (\<lambda>it. (id_task (snd it),
        noPatch\<lparr>set_dueDate := Some (due (int (fst it) + 4)), inc_throwCount := Some 1\<rparr>))
      (enumerate 0 checked)"
    by (simp add: ups_def items_def comp_def add.assoc)
  have look: "\<And>k. map_of ups k = map_option
      (\<lambda>j. noPatch\<lparr>set_dueDate := Some (due (int j + 4)), inc_throwCount := Some 1\<rparr>)
      (indexOf (map id_task checked) k)"
    unfolding ups_eq
    using map_of_enumerate [of id_task
        "\<lambda>i. noPatch\<lparr>set_dueDate := Some (due (int i + 4)), inc_throwCount := Some 1\<rparr>" 0 checked]
    by simp
  have com: "commit now ups db =
     map (\<lambda>d. case indexOf (map id_task checked) (doc_id d) of
                 None \<Rightarrow> d
               | Some i \<Rightarrow> d\<lparr>f_dueDate := Some (due (int i + 4)),
                               f_throwCount := Some (num (f_throwCount d) + 1),
                               f_updatedAtMs := Some now\<rparr>) db"
    unfolding commit_distinct [of ups now db, OF ups_keys [THEN ssubst, of distinct, OF dist]] look
    by (rule map_cong) (auto simp: update_doc_swipe split: option.splits)
  have resched: "rescheduleTasksIndividually None now items 1 db = (commit now ups db, None)"
  proof (cases "items = []")
    case True
    then have "ups = []" by (simp add: ups_def)
    with True rows show ?thesis
      by (simp add: rescheduleTasksIndividually_def commit_Nil)
  next
    case False
    with rows show ?thesis
      by (simp add: rescheduleTasksIndividually_def Let_def batchUpdate_None ups_def)
  qed
  show ?thesis
    using u a s sw resched com by (simp add: onThrow_def throwStep_def)
qed

text \<open>
  C8. BulkThrow(Swipe): \<open>onThrow\<close> with the action SWIPE, a signed-in user, a non-empty
  selection and a well-formed reference date \<open>R\<close>, committed by the store. The ids of Today
  are those of stored documents: distinct, not empty and without surrounding white space.
  Then \<open>addDaysISO R (i + 4)\<close> is defined for every \<open>i\<close>, and the store afterwards is the store
  before in which the document of the \<open>i\<close>-th selected task in Today's order (from 0) has that
  date as its due date and a \<open>throwCount\<close> larger by exactly 1 (and the time stamp of the
  write); every other document is as it was.
\<close>

theorem swipe_reschedules:
  assumes "user st = Some u" and "throwAction st = SWIPE" and "selectedIds st \<noteq> []"
    and "isISODate (baseDate st)"
    and "distinct (map id_task (todayTasks (allTasks st) (baseDate st)))"
    and "\<forall>t \<in> set (todayTasks (allTasks st) (baseDate st)).
           id_task t \<noteq> [] \<and> trim (id_task t) = id_task t"
  shows "(\<forall>i. \<exists>due. addDaysISO (baseDate st) (int i + 4) = Inr due)
    \<and> snd (onThrow None now (st, db)) =
        map (\<lambda>d. case indexOf (map id_task (filter (\<lambda>t. is_selected st (id_task t))
                                  (todayTasks (allTasks st) (baseDate st)))) (doc_id d) of
                    None \<Rightarrow> d
                  | Some i \<Rightarrow>
                      (case addDaysISO (baseDate st) (int i + 4) of
                         Inl e \<Rightarrow> d
                       | Inr due \<Rightarrow> d\<lparr>f_dueDate := Some due,
                                       f_throwCount := Some (num (f_throwCount d) + 1),
                                       f_updatedAtMs := Some now\<rparr>)) db"
proof -
  let ?checked = "filter (\<lambda>t. is_selected st (id_task t)) (todayTasks (allTasks st) (baseDate st))"
  from assms(4) have "\<forall>n. \<exists>s. addDaysISO (baseDate st) n = Inr s"
    by (simp add: addDaysISO_Inr)
  then obtain due where due: "\<And>n. addDaysISO (baseDate st) n = Inr (due n)"
    by metis
  have dist: "distinct (map id_task ?checked)"
    using assms(5) by (rule distinct_map_filter)
  have clean: "\<And>t. t \<in> set ?checked \<Longrightarrow> id_task t \<noteq> [] \<and> trim (id_task t) = id_task t"
    using assms(6) by simp
  have "snd (onThrow None now (st, db)) =
     map (\<lambda>d. case indexOf (map id_task ?checked) (doc_id d) of
                 None \<Rightarrow> d
               | Some i \<Rightarrow> d\<lparr>f_dueDate := Some (due (int i + 4)),
                               f_throwCount := Some (num (f_throwCount d) + 1),
                               f_updatedAtMs := Some now\<rparr>) db"
    by (rule swipe_store [OF assms(1) assms(2) assms(3) due refl dist clean])
  moreover have "\<And>(d::Doc) v. (case v of None \<Rightarrow> d
               | Some (i::nat) \<Rightarrow> d\<lparr>f_dueDate := Some (due (int i + 4)),
                               f_throwCount := Some (num (f_throwCount d) + 1),
                               f_updatedAtMs := Some now\<rparr>)
      = (case v of None \<Rightarrow> d
         | Some i \<Rightarrow> (case addDaysISO (baseDate st) (int i + 4) of
                         Inl e \<Rightarrow> d
                       | Inr due \<Rightarrow> d\<lparr>f_dueDate := Some due,
                                       f_throwCount := Some (num (f_throwCount d) + 1),
                                       f_updatedAtMs := Some now\<rparr>))"
    by (simp add: due split: option.splits)
  ultimately show ?thesis by (simp add: due)
qed

theorem swipe_reschedules_witness:
  "user (mkApp ''2024-06-01''
       [mkDoc ''A'' ''2024-06-01'' False 1 1000 1, mkDoc ''B'' ''2024-06-01'' False 1 2000 2,
        mkDoc ''C'' ''2024-05-30'' False 3 1000 3, mkDoc ''D'' ''2024-06-01'' False 3 2000 4]
       [(''C'', True), (''A'', True), (''B'', True)] SWIPE) = Some ''u''
   \<and> map (\<lambda>d. (doc_id d, f_dueDate d, f_throwCount d))
       (snd (onThrow None 77
          (mkApp ''2024-06-01''
             [mkDoc ''A'' ''2024-06-01'' False 1 1000 1, mkDoc ''B'' ''2024-06-01'' False 1 2000 2,
              mkDoc ''C'' ''2024-05-30'' False 3 1000 3, mkDoc ''D'' ''2024-06-01'' False 3 2000 4]
             [(''C'', True), (''A'', True), (''B'', True)] SWIPE,
           [mkDoc ''A'' ''2024-06-01'' False 1 1000 1, mkDoc ''B'' ''2024-06-01'' False 1 2000 2,
            mkDoc ''C'' ''2024-05-30'' False 3 1000 3, mkDoc ''D'' ''2024-06-01'' False 3 2000 4])))
     = [(''A'', Some ''2024-06-05'', Some 1), (''B'', Some ''2024-06-06'', Some 1),
        (''C'', Some ''2024-06-07'', Some 1), (''D'', Some ''2024-06-01'', Some 0)]"
proof -
  let ?db = "[mkDoc ''A'' ''2024-06-01'' False 1 1000 1, mkDoc ''B'' ''2024-06-01'' False 1 2000 2,
        mkDoc ''C'' ''2024-05-30'' False 3 1000 3, mkDoc ''D'' ''2024-06-01'' False 3 2000 4]"
  let ?st = "mkApp ''2024-06-01'' ?db [(''C'', True), (''A'', True), (''B'', True)] SWIPE"
  have h1: "user ?st = Some ''u''" by (simp add: mkApp_def)
  have h2: "throwAction ?st = SWIPE" by (simp add: mkApp_def)
  have h3: "selectedIds ?st \<noteq> []" by (simp add: mkApp_def selectedIds_def is_selected_def)
  have h4: "isISODate (baseDate ?st)" by (simp add: mkApp_def is_digit_def)
  have h5: "distinct (map id_task (todayTasks (allTasks ?st) (baseDate ?st)))" by code_simp
  have h6: "\<forall>t \<in> set (todayTasks (allTasks ?st) (baseDate ?st)).
           id_task t \<noteq> [] \<and> trim (id_task t) = id_task t" by code_simp
  note inst = swipe_reschedules [OF h1 h2 h3 h4 h5 h6, of 77 ?db]
  have c: "map (\<lambda>d. (doc_id d, f_dueDate d, f_throwCount d)) (snd (onThrow None 77 (?st, ?db)))
     = [(''A'', Some ''2024-06-05'', Some 1), (''B'', Some ''2024-06-06'', Some 1),
        (''C'', Some ''2024-06-07'', Some 1), (''D'', Some ''2024-06-01'', Some 0)]"
    unfolding inst [THEN conjunct2] by code_simp
  show ?thesis by (rule conjI [OF h1 c])
qed

section \<open>Drag and drop: the order after a move\<close>

text \<open>The comparator of Today orders by the triple of clamped band, sorter and creation time.\<close>

definition keyToday :: "Task \<Rightarrow> int \<times> int \<times> int" where
  "keyToday t = (clampSortOrder (sortOrder t), sorter t, createdAtMs t)"

lemma cmpToday_key: "cmpToday a b \<le> 0 \<longleftrightarrow> keyToday a \<le> keyToday b"
  by (auto simp: cmpToday_def keyToday_def Let_def)

lemma insert_by_insort:
  assumes "\<And>a b. cmp a b \<le> 0 \<longleftrightarrow> f a \<le> f b"
  shows "insert_by cmp x xs = insort_key f x xs"
  by (induction xs) (simp_all add: assms)

lemma sort_by_sort_key:
  assumes "\<And>a b. cmp a b \<le> 0 \<longleftrightarrow> f a \<le> f b"
  shows "sort_by cmp xs = sort_key f xs"
proof -
  have "insert_by cmp = insort_key f"
    by (intro ext) (rule insert_by_insort [OF assms])
  then show ?thesis by (simp add: sort_by_def sort_key_def)
qed

lemma todayTasks_sort_key:
  "todayTasks tasks R =
     sort_key keyToday (filter (\<lambda>t. \<not> removed t \<and> js_le (dueDate t) R) tasks)"
  by (simp add: todayTasks_def activeTasks_def sort_by_sort_key [of cmpToday keyToday, OF cmpToday_key])

lemma indexOf_Some: "indexOf xs x = Some i \<Longrightarrow> i < length xs \<and> xs ! i = x"
  by (induction xs arbitrary: i) (auto split: if_splits)

lemma indexOf_mem: "x \<in> set xs \<Longrightarrow> \<exists>i. indexOf xs x = Some i"
  by (induction xs) auto

lemma indexOf_None: "x \<notin> set xs \<Longrightarrow> indexOf xs x = None"
  by (induction xs) auto

lemma length_arrayMove: "i < length xs \<Longrightarrow> length (arrayMove xs i j) = length xs"
  by (auto simp: arrayMove_def Let_def)

lemma mset_arrayMove: "i < length xs \<Longrightarrow> mset (arrayMove xs i j) = mset xs"
proof -
  assume i: "i < length xs"
  let ?rest = "take i xs @ drop (Suc i) xs"
  have "mset (arrayMove xs i j) = mset (take j ?rest @ drop j ?rest) + {#xs ! i#}"
    unfolding arrayMove_def Let_def by (simp del: append_take_drop_id)
  also have "\<dots> = mset ?rest + {#xs ! i#}" by (simp only: append_take_drop_id)
  also have "\<dots> = mset (take i xs @ xs ! i # drop (Suc i) xs)" by simp
  also have "\<dots> = mset xs" using i by (simp only: id_take_nth_drop [symmetric])
  finally show ?thesis .
qed

lemma map_arrayMove: "i < length xs \<Longrightarrow> map f (arrayMove xs i j) = arrayMove (map f xs) i j"
  by (simp add: arrayMove_def Let_def take_map drop_map)

text \<open>
  Moving an item of a sorted list and giving it the value of its new left neighbour (of its
  right neighbour at the head) leaves the list sorted.
\<close>

lemma sorted_le_last: "sorted xs \<Longrightarrow> x \<in> set xs \<Longrightarrow> x \<le> last xs"
  by (induction xs) auto

lemma sorted_dup_last: "sorted (xs @ ys) \<Longrightarrow> xs \<noteq> [] \<Longrightarrow> sorted (xs @ last xs # ys)"
  by (auto simp: sorted_append sorted_le_last)

lemma sorted_dup_hd: "sorted ys \<Longrightarrow> ys \<noteq> [] \<Longrightarrow> sorted (hd ys # ys)"
  by (cases ys) auto

lemma sorted_remove_nth:
  assumes "sorted xs"
  shows "sorted (take i xs @ drop (Suc i) xs)"
proof -
  from assms have "sorted (take i xs @ drop i xs)" by simp
  then have cross: "\<forall>x \<in> set (take i xs). \<forall>y \<in> set (drop i xs). x \<le> y"
    by (simp only: sorted_append) simp
  have sub: "set (drop (Suc i) xs) \<subseteq> set (drop i xs)"
    by (rule set_drop_subset_set_drop) simp
  have a: "sorted (take i xs)" using assms by (rule sorted_wrt_take)
  have b: "sorted (drop (Suc i) xs)" using assms by (rule sorted_wrt_drop)
  from a b cross sub show ?thesis by (auto simp: sorted_append)
qed

lemma inherit_sorted:
  fixes B :: "int list"
  assumes "sorted B" and i: "i < length B" and j: "j < length B"
  shows "sorted ((arrayMove B i j)
           [j := (if 0 < j then arrayMove B i j ! (j - 1)
                  else if j + 1 < length (arrayMove B i j) then arrayMove B i j ! (j + 1)
                  else arrayMove B i j ! j)])"
proof -
  let ?rest = "take i B @ drop (Suc i) B"
  let ?pre = "take j ?rest"
  let ?post = "drop j ?rest"
  have lrest: "length ?rest = length B - 1" using i by simp
  have lpre: "length ?pre = j" using j lrest by simp
  have M: "arrayMove B i j = ?pre @ B ! i # ?post"
    by (simp add: arrayMove_def Let_def)
  have srest: "sorted ?rest" using assms(1) by (rule sorted_remove_nth)
  then have spp: "sorted (?pre @ ?post)" by (simp only: append_take_drop_id)
  have upd: "\<And>v. (arrayMove B i j)[j := v] = ?pre @ v # ?post"
    unfolding M using list_update_length [of ?pre "B ! i" ?post] by (simp only: lpre)
  have lM: "length (arrayMove B i j) = length B" by (rule length_arrayMove [OF i])
  show ?thesis
  proof (cases "0 < j")
    case True
    then have ne: "?pre \<noteq> []" using lpre by auto
    have "arrayMove B i j ! (j - 1) = ?pre ! (j - 1)"
      unfolding M using True lpre by (simp only: nth_append) simp
    also have "\<dots> = last ?pre" using last_conv_nth [OF ne] by (simp only: lpre)
    finally have v: "arrayMove B i j ! (j - 1) = last ?pre" .
    show ?thesis
      using True sorted_dup_last [OF spp ne] by (simp only: upd v if_True)
  next
    case False
    then have j0: "j = 0" by simp
    show ?thesis
    proof (cases "j + 1 < length (arrayMove B i j)")
      case True
      then have "j + 1 < length B" unfolding lM .
      then have "0 < length B - 1" using j0 by simp
      then have "0 < length ?rest" by (simp only: lrest)
      then have ne: "?rest \<noteq> []" by (rule length_greater_0_conv [THEN iffD1])
      have M0: "arrayMove B i 0 = B ! i # ?rest"
        by (simp add: arrayMove_def Let_def)
      have "arrayMove B i 0 ! (0 + 1) = ?rest ! 0"
        by (simp only: M0) simp
      also have "\<dots> = hd ?rest" by (rule hd_conv_nth [OF ne, symmetric])
      finally have v: "arrayMove B i 0 ! (0 + 1) = hd ?rest" .
      have u0: "(arrayMove B i 0)[0 := hd ?rest] = hd ?rest # ?rest"
        by (simp only: M0) simp
      have "sorted ((arrayMove B i 0)[0 := arrayMove B i 0 ! (0 + 1)])"
        using sorted_dup_hd [OF srest ne] by (simp only: v u0)
      moreover have "0 + 1 < length (arrayMove B i 0)" using True unfolding j0 .
      ultimately show ?thesis unfolding j0 by simp
    next
      case F2: False
      then have "\<not> j + 1 < length B" unfolding lM .
      then have "length B - 1 = 0" using j0 by simp
      then have "length ?rest = 0" by (simp only: lrest)
      then have r: "?rest = []" by (rule length_0_conv [THEN iffD1])
      have M0: "arrayMove B i 0 = B ! i # ?rest"
        by (simp add: arrayMove_def Let_def)
      have "sorted ((arrayMove B i 0)[0 := arrayMove B i 0 ! 0])"
        by (simp only: M0 r) simp
      moreover have "\<not> 0 + 1 < length (arrayMove B i 0)" using F2 unfolding j0 .
      ultimately show ?thesis unfolding j0 by simp
    qed
  qed
qed

text \<open>The variable \<open>inheritedSO\<close> of \<open>onDragEnd\<close>, and what the local update does to one task.\<close>

definition inheritedSO :: "Task list \<Rightarrow> nat \<Rightarrow> int" where
  "inheritedSO moved newIndex =
     (if 0 < newIndex then clampSortOrder (sortOrder (moved ! (newIndex - 1)))
      else if newIndex + 1 < length moved then clampSortOrder (sortOrder (moved ! (newIndex + 1)))
      else clampSortOrder (sortOrder (moved ! newIndex)))"

definition applyOne :: "(string \<times> int \<times> int) list \<Rightarrow> Task \<Rightarrow> Task" where
  "applyOne updates t =
     (case map_of (rev updates) (id_task t) of
        None \<Rightarrow> t
      | Some v \<Rightarrow> t\<lparr>sorter := fst v, sortOrder := snd v\<rparr>)"

lemma applyOrdering_map: "applyOrdering updates tasks = map (applyOne updates) tasks"
  by (simp add: applyOrdering_def applyOne_def)

lemma dragUpdates_eq:
  "dragUpdates moved j =
     map (\<lambda>it. (id_task (snd it), (int (fst it) + 1) * 1000,
                 if id_task (snd it) = id_task (moved ! j) then inheritedSO moved j
                 else clampSortOrder (sortOrder (snd it))))
       (enumerate 0 moved)"
  by (simp add: dragUpdates_def inheritedSO_def Let_def)

lemma length_dragUpdates: "length (dragUpdates moved j) = length moved"
  by (simp add: dragUpdates_eq)

lemma keys_dragUpdates: "map fst (dragUpdates moved j) = map id_task moved"
  by (simp add: dragUpdates_eq comp_def map_key_enumerate)

lemma dragUpdates_nth:
  "k < length moved \<Longrightarrow>
   dragUpdates moved j ! k =
     (id_task (moved ! k), (int k + 1) * 1000,
      if id_task (moved ! k) = id_task (moved ! j) then inheritedSO moved j
      else clampSortOrder (sortOrder (moved ! k)))"
  by (simp add: dragUpdates_eq nth_enumerate_eq)

lemma applyOne_keeps:
  "id_task (applyOne ups t) = id_task t \<and> dueDate (applyOne ups t) = dueDate t
   \<and> removed (applyOne ups t) = removed t \<and> createdAtMs (applyOne ups t) = createdAtMs t"
  by (simp add: applyOne_def split: option.splits)


lemma applyOne_moved:
  assumes dist: "distinct (map id_task moved)" and k: "k < length moved" and j: "j < length moved"
  shows "applyOne (dragUpdates moved j) (moved ! k) =
     (moved ! k)\<lparr>sorter := (int k + 1) * 1000,
                 sortOrder := (if k = j then inheritedSO moved j
                               else clampSortOrder (sortOrder (moved ! k)))\<rparr>"
proof -
  let ?ups = "dragUpdates moved j"
  have d: "distinct (map fst (rev ?ups))"
    using dist by (simp add: rev_map [symmetric] keys_dragUpdates)
  have same: "(id_task (moved ! k) = id_task (moved ! j)) = (k = j)"
    using nth_eq_iff_index_eq [of "map id_task moved" k j] dist k j by simp
  have "?ups ! k \<in> set (rev ?ups)"
    using k by (simp add: length_dragUpdates)
  then have "(id_task (moved ! k), (int k + 1) * 1000,
      if k = j then inheritedSO moved j else clampSortOrder (sortOrder (moved ! k)))
      \<in> set (rev ?ups)"
    using k by (simp only: dragUpdates_nth same)
  then have "map_of (rev ?ups) (id_task (moved ! k)) =
      Some ((int k + 1) * 1000,
        if k = j then inheritedSO moved j else clampSortOrder (sortOrder (moved ! k)))"
    using map_of_eq_Some_iff [OF d] by blast
  then show ?thesis by (simp add: applyOne_def)
qed

lemma clamp_range: "1 \<le> clampSortOrder v \<and> clampSortOrder v \<le> 24"
  by (simp add: clampSortOrder_def)

lemma clamp_idem: "clampSortOrder (clampSortOrder v) = clampSortOrder v"
  by (simp add: clampSortOrder_def)


lemma inheritedSO_clamped: "clampSortOrder (inheritedSO moved j) = inheritedSO moved j"
  by (simp add: inheritedSO_def clamp_idem)

lemma sorted_bands_today:
  "sorted (map (\<lambda>t. clampSortOrder (sortOrder t)) (todayTasks tasks R))"
proof -
  have "sorted (map keyToday (todayTasks tasks R))"
    by (simp only: todayTasks_sort_key sorted_sort_key)
  then have "sorted_wrt (\<lambda>x y. keyToday x \<le> keyToday y) (todayTasks tasks R)"
    by (simp only: sorted_map)
  then have "sorted_wrt (\<lambda>x y. clampSortOrder (sortOrder x) \<le> clampSortOrder (sortOrder y))
      (todayTasks tasks R)"
    by (rule sorted_wrt_mono_rel [rotated]) (auto simp: keyToday_def)
  then show ?thesis by (simp only: sorted_map)
qed

lemma today_after_drag:
  assumes dist: "distinct (map id_task tasks)"
    and i: "i < length (todayTasks tasks R)" and j: "j < length (todayTasks tasks R)"
    and moved: "moved = arrayMove (todayTasks tasks R) i j"
  shows "todayTasks (applyOrdering (dragUpdates moved j) tasks) R
       = map (applyOne (dragUpdates moved j)) moved"
proof -
  let ?P = "\<lambda>t. \<not> removed t \<and> js_le (dueDate t) R"
  let ?F = "applyOne (dragUpdates moved j)"
  let ?today = "todayTasks tasks R"
  let ?cb = "\<lambda>t. clampSortOrder (sortOrder t)"
  define band where
    "band k = (if k = j then inheritedSO moved j else clampSortOrder (sortOrder (moved ! k)))" for k
  have lm: "length moved = length ?today"
    unfolding moved by (rule length_arrayMove [OF i])
  have jm: "j < length moved" using j lm by simp
  have "mset moved = mset ?today"
    unfolding moved by (rule mset_arrayMove [OF i])
  also have "\<dots> = mset (filter ?P tasks)"
    by (simp only: todayTasks_sort_key mset_sort)
  finally have ms: "mset moved = mset (filter ?P tasks)" .
  have mid: "mset (map id_task moved) = mset (map id_task (filter ?P tasks))"
    by (simp only: mset_map ms)
  have "distinct (map id_task (filter ?P tasks))"
    using dist by (rule distinct_map_filter)
  then have dm: "distinct (map id_task moved)"
    by (rule mset_eq_imp_distinct_iff [OF mid, THEN iffD2])
  have PF: "\<And>t. ?P (?F t) = ?P t"
    by (simp add: applyOne_keeps)
  have "filter ?P (map ?F tasks) = map ?F (filter ?P tasks)"
    by (simp add: filter_map comp_def PF)
  then have lhs: "todayTasks (applyOrdering (dragUpdates moved j) tasks) R
      = sort_key keyToday (map ?F (filter ?P tasks))"
    by (simp only: todayTasks_sort_key applyOrdering_map)
  have Fk: "\<And>k. k < length moved \<Longrightarrow>
      ?F (moved ! k) = (moved ! k)\<lparr>sorter := (int k + 1) * 1000, sortOrder := band k\<rparr>"
    unfolding band_def by (rule applyOne_moved [OF dm _ jm])
  have bandc: "\<And>k. clampSortOrder (band k) = band k"
    by (simp add: band_def inheritedSO_clamped clamp_idem)
  have key: "\<And>k. k < length moved \<Longrightarrow>
      keyToday (?F (moved ! k)) = (band k, (int k + 1) * 1000, createdAtMs (moved ! k))"
    by (simp add: Fk keyToday_def bandc)
  have cbm: "map ?cb moved = arrayMove (map ?cb ?today) i j"
    unfolding moved by (rule map_arrayMove [OF i])
  have inh: "inheritedSO moved j =
      (if 0 < j then map ?cb moved ! (j - 1)
       else if j + 1 < length (map ?cb moved) then map ?cb moved ! (j + 1)
       else map ?cb moved ! j)"
    using jm by (auto simp: inheritedSO_def)
  have "map band [0..<length moved] = (map ?cb moved)[j := inheritedSO moved j]"
    by (rule nth_equalityI) (auto simp: band_def nth_list_update)
  also have "sorted \<dots>"
    unfolding inh cbm
    by (rule inherit_sorted) (simp_all add: sorted_bands_today i j)
  finally have bs: "sorted (map band [0..<length moved])" .
  have band_mono: "\<And>k l. k < l \<Longrightarrow> l < length moved \<Longrightarrow> band k \<le> band l"
  proof -
    fix k l assume kl: "k < l" "l < length moved"
    from bs have "\<forall>a b. a < b \<longrightarrow> b < length (map band [0..<length moved]) \<longrightarrow>
        map band [0..<length moved] ! a \<le> map band [0..<length moved] ! b"
      by (simp only: sorted_iff_nth_mono_less)
    then have "map band [0..<length moved] ! k \<le> map band [0..<length moved] ! l"
      using kl by simp
    then show "band k \<le> band l" using kl by simp
  qed
  have sortedL: "sorted (map keyToday (map ?F moved))"
    unfolding sorted_iff_nth_mono_less
  proof (intro allI impI)
    fix k l assume kl: "k < l" "l < length (map keyToday (map ?F moved))"
    then have l: "l < length moved" and k: "k < length moved" by simp_all
    have "band k \<le> band l" using kl(1) l by (rule band_mono)
    then show "map keyToday (map ?F moved) ! k \<le> map keyToday (map ?F moved) ! l"
      using kl(1) k l by (simp add: key)
  qed
  have distinctL: "distinct (map keyToday (map ?F moved))"
    unfolding distinct_conv_nth
  proof (intro allI impI)
    fix k l assume "k < length (map keyToday (map ?F moved))"
      "l < length (map keyToday (map ?F moved))" "k \<noteq> l"
    then have k: "k < length moved" and l: "l < length moved" and ne: "k \<noteq> l" by simp_all
    show "map keyToday (map ?F moved) ! k \<noteq> map keyToday (map ?F moved) ! l"
      using k l ne by (simp add: key)
  qed
  then have "inj_on keyToday (set (map ?F moved))"
    by (simp only: distinct_map)
  moreover have mseq: "mset (map ?F (filter ?P tasks)) = mset (map ?F moved)"
    by (simp only: mset_map ms)
  then have "set (map ?F (filter ?P tasks)) = set (map ?F moved)"
    by (rule mset_eq_setD)
  ultimately have inj: "inj_on keyToday (set (map ?F (filter ?P tasks)))" by simp
  have "sort_key keyToday (map ?F (filter ?P tasks)) = map ?F moved"
    using mseq inj sortedL by (rule sort_key_inj_key_eq)
  with lhs show ?thesis by simp
qed


lemma updateOrdering_None: "snd (updateOrdering None now items db) = None"
  by (simp add: updateOrdering_def Let_def batchUpdate_None)

lemma onDragEnd_self: "onDragEnd fail now (Some a) (Some a) (st, db) = (st, db)"
  by (simp add: onDragEnd_def)

lemma onDragEnd_moved:
  assumes "user st = Some u" and "a \<noteq> []" and "b \<noteq> []" and "a \<noteq> b"
    and "indexOf (map id_task (todayTasks (allTasks st) (baseDate st))) a = Some i"
    and "indexOf (map id_task (todayTasks (allTasks st) (baseDate st))) b = Some j"
  shows "allTasks (fst (onDragEnd None now (Some a) (Some b) (st, db)))
           = applyOrdering (dragUpdates (arrayMove (todayTasks (allTasks st) (baseDate st)) i j) j)
               (allTasks st)
       \<and> baseDate (fst (onDragEnd None now (Some a) (Some b) (st, db))) = baseDate st"
proof -
  let ?ups = "dragUpdates (arrayMove (todayTasks (allTasks st) (baseDate st)) i j) j"
  obtain db' r where c: "updateOrdering None now ?ups db = (db', r)"
    by (cases "updateOrdering None now ?ups db")
  with updateOrdering_None [of now ?ups db] have "r = None" by simp
  with c assms show ?thesis
    by (simp add: onDragEnd_def Let_def syncSelected_def)
qed


lemma distinct_ids_today:
  assumes "distinct (map id_task tasks)"
  shows "distinct (map id_task (todayTasks tasks R))"
proof -
  have "mset (map id_task (todayTasks tasks R))
      = mset (map id_task (filter (\<lambda>t. \<not> removed t \<and> js_le (dueDate t) R) tasks))"
    by (simp only: todayTasks_sort_key mset_map mset_sort)
  then show ?thesis
    by (rule mset_eq_imp_distinct_iff [THEN iffD2]) (rule distinct_map_filter [OF assms])
qed

text \<open>
  C2, as amended. Let the ids of the task list be distinct, the user signed in, and an item of
  Today be dropped on a different item of Today (the only drop on which \<open>onDragEnd\<close> reorders:
  the target index is the index of the item dropped on), the store accepting the update. Then
  the Today list afterwards is the moved list: its sorters, read in list order, are 1000, 2000,
  \<dots>, (the \<open>k\<close>-th item, from 0, has \<open>(k + 1) * 1000\<close>), hence strictly increasing; its
  length and its set of ids are those of Today before, and its ids are those of Today before
  with the dragged one moved to the target index. A drop of an item on itself changes
  nothing, whatever the sorters were.
\<close>

theorem drag_resequences:
  assumes "user st = Some u" and "distinct (map id_task (allTasks st))"
    and "a \<noteq> []" and "b \<noteq> []" and "a \<noteq> b"
    and "today = todayTasks (allTasks st) (baseDate st)"
    and "a \<in> set (map id_task today)" and "b \<in> set (map id_task today)"
    and "st' = fst (onDragEnd None now (Some a) (Some b) (st, db))"
    and "today' = todayTasks (allTasks st') (baseDate st')"
  shows "map sorter today' = map (\<lambda>k. (int k + 1) * 1000) [0..<length today]
    \<and> sorted_wrt (<) (map sorter today')
    \<and> length today' = length today
    \<and> set (map id_task today') = set (map id_task today)
    \<and> (\<exists>i j. indexOf (map id_task today) a = Some i \<and> indexOf (map id_task today) b = Some j
          \<and> map id_task today' = arrayMove (map id_task today) i j)
    \<and> onDragEnd fail now (Some a) (Some a) (st, db) = (st, db)"
proof -
  from assms(7) obtain i where ia: "indexOf (map id_task today) a = Some i"
    using indexOf_mem by fastforce
  from assms(8) obtain j where ib: "indexOf (map id_task today) b = Some j"
    using indexOf_mem by fastforce
  from ia have i: "i < length today" using indexOf_Some by fastforce
  from ib have j: "j < length today" using indexOf_Some by fastforce
  define moved where "moved = arrayMove today i j"
  let ?F = "applyOne (dragUpdates moved j)"
  have lm: "length moved = length today"
    unfolding moved_def by (rule length_arrayMove [OF i])
  have st': "allTasks st' = applyOrdering (dragUpdates moved j) (allTasks st)
      \<and> baseDate st' = baseDate st"
    unfolding assms(9) moved_def assms(6)
    by (rule onDragEnd_moved [OF assms(1) assms(3) assms(4) assms(5) ia [unfolded assms(6)]
          ib [unfolded assms(6)]])
  have t': "today' = map ?F moved"
    unfolding assms(10) using st'
      today_after_drag [OF assms(2) i [unfolded assms(6)] j [unfolded assms(6)]
        moved_def [unfolded assms(6)]]
    by simp
  have ms: "mset moved = mset today"
    unfolding moved_def by (rule mset_arrayMove [OF i])
  have dm: "distinct (map id_task moved)"
  proof -
    have d: "distinct (map id_task today)"
      unfolding assms(6) by (rule distinct_ids_today [OF assms(2)])
    have "mset (map id_task moved) = mset (map id_task today)"
      by (simp only: mset_map ms)
    then show ?thesis by (rule mset_eq_imp_distinct_iff [THEN iffD2]) (rule d)
  qed
  have jm: "j < length moved" using j lm by simp
  have srt: "map sorter today' = map (\<lambda>k. (int k + 1) * 1000) [0..<length today]"
    unfolding t'
    by (rule nth_equalityI) (simp_all add: lm applyOne_moved [OF dm _ jm])
  have ids: "map id_task today' = map id_task moved"
    unfolding t' by (simp add: applyOne_keeps)
  have incr: "sorted_wrt (<) (map sorter today')"
    unfolding srt by (simp add: sorted_wrt_iff_nth_less)
  have len: "length today' = length today"
    unfolding t' using lm by simp
  have sets: "set (map id_task today') = set (map id_task today)"
    unfolding ids using mset_eq_setD [OF ms] by simp
  have mv: "map id_task today' = arrayMove (map id_task today) i j"
    unfolding ids moved_def by (rule map_arrayMove [OF i])
  have ex: "\<exists>i j. indexOf (map id_task today) a = Some i \<and> indexOf (map id_task today) b = Some j
          \<and> map id_task today' = arrayMove (map id_task today) i j"
    using ia ib mv by blast
  have self: "onDragEnd fail now (Some a) (Some a) (st, db) = (st, db)"
    by (rule onDragEnd_self)
  show ?thesis
    by (rule conjI [OF srt conjI [OF incr conjI [OF len conjI [OF sets conjI [OF ex self]]]]])
qed




theorem drag_resequences_witness:
  "user dragState = Some ''u''
   \<and> distinct (map id_task (allTasks dragState))
   \<and> ''C'' \<in> set (map id_task (todayTasks (allTasks dragState) (baseDate dragState)))
   \<and> ''B'' \<in> set (map id_task (todayTasks (allTasks dragState) (baseDate dragState)))
   \<and> map sorter
        (todayTasks (allTasks (fst (onDragEnd None 77 (Some ''C'') (Some ''B'') (dragState, dragStore))))
           (baseDate (fst (onDragEnd None 77 (Some ''C'') (Some ''B'') (dragState, dragStore)))))
      = [1000, 2000, 3000]
   \<and> map id_task
        (todayTasks (allTasks (fst (onDragEnd None 77 (Some ''C'') (Some ''B'') (dragState, dragStore))))
           (baseDate (fst (onDragEnd None 77 (Some ''C'') (Some ''B'') (dragState, dragStore)))))
      = [''A'', ''C'', ''B'']"
proof -
  let ?today = "todayTasks (allTasks dragState) (baseDate dragState)"
  let ?st' = "fst (onDragEnd None 77 (Some ''C'') (Some ''B'') (dragState, dragStore))"
  let ?today' = "todayTasks (allTasks ?st') (baseDate ?st')"
  have h1: "user dragState = Some ''u''" by code_simp
  have h2: "distinct (map id_task (allTasks dragState))" by code_simp
  have h3: "''C'' \<noteq> []" "''B'' \<noteq> []" "''C'' \<noteq> ''B''" by simp_all
  have h4: "''C'' \<in> set (map id_task ?today)" by code_simp
  have h5: "''B'' \<in> set (map id_task ?today)" by code_simp
  note inst = drag_resequences [OF h1 h2 h3 refl h4 h5 refl refl, of 77 dragStore None]
  have "map (\<lambda>k. (int k + 1) * 1000) [0..<length ?today] = [1000, 2000, 3000]" by code_simp
  with inst have c1: "map sorter ?today' = [1000, 2000, 3000]" by simp
  have c2: "map id_task ?today' = [''A'', ''C'', ''B'']" by code_simp
  show ?thesis by (rule conjI [OF h1 conjI [OF h2 conjI [OF h4 conjI [OF h5 conjI [OF c1 c2]]]]])
qed

text \<open>
  The claim as it was stated fails for a drop of an item on itself (target index = its own
  index): \<open>onDragEnd\<close> returns at once, and Today keeps the sorters 2000, 1000 of its two
  bands.
\<close>

theorem drag_resequences_counterexample:
  "map (\<lambda>t. (id_task t, sorter t))
     (todayTasks (allTasks (mkApp ''2024-06-01''
         [mkDoc ''A'' ''2024-06-01'' False 1 2000 1, mkDoc ''B'' ''2024-06-01'' False 3 1000 2]
         [] TOMORROW)) ''2024-06-01'')
     = [(''A'', 2000), (''B'', 1000)]
   \<and> map (\<lambda>t. (id_task t, sorter t))
     (todayTasks (allTasks (fst (onDragEnd None 77 (Some ''A'') (Some ''A'')
        (mkApp ''2024-06-01''
           [mkDoc ''A'' ''2024-06-01'' False 1 2000 1, mkDoc ''B'' ''2024-06-01'' False 3 1000 2]
           [] TOMORROW,
         [mkDoc ''A'' ''2024-06-01'' False 1 2000 1, mkDoc ''B'' ''2024-06-01'' False 3 1000 2]))))
        ''2024-06-01'')
     = [(''A'', 2000), (''B'', 1000)]"
  by code_simp

end
